theory Spec2Isabelle
  imports Main "HOL-Library.Word"
begin

unbundle bit_operations_syntax

section \<open>Machine types and configuration\<close>

text \<open>
  The kernel targets i386: \<open>uint8_t\<close>, \<open>uint32_t\<close> and \<open>size_t\<close> are unsigned 8 and 32
  bit integers whose arithmetic wraps around; a pointer is a 32 bit address and
  \<open>NULL\<close> is the address 0.
\<close>

type_synonym u8 = "8 word"
type_synonym u32 = "32 word"

definition NULL :: u32 where
  "NULL = 0"

definition KERNEL_HEAP_SIZE :: u32 where
  "KERNEL_HEAP_SIZE = 0xC0000"

definition MAX_ALLOCATIONS :: nat where
  "MAX_ALLOCATIONS = 512"

section \<open>Allocation metadata\<close>

text \<open>
  \<open>mem_block_t\<close>. The \<open>next\<close> field chains the records; a chain is modelled as the
  list of its records, head first.
\<close>

record mem_block =
  ptr :: u32
  block_size :: u32
  allocation_id :: u32
  owner :: u32
  is_garbage :: u8

section \<open>The allocator with a pre-allocated metadata pool\<close>

text \<open>
  The revision whose \<open>kmalloc\<close> draws its tracking record from the static array
  \<open>metadata_pool[MAX_ALLOCATIONS]\<close>. A record of the pool is named by its index; the
  free chain \<open>free_metadata_list\<close> is the list of the indices of its records and the
  chain \<open>allocation_list\<close> pairs each index with the contents of the record.
\<close>

record pool_heap =
  pkernel_heap :: u32
  pheap_offset :: u32
  free_metadata_list :: "nat list"
  pallocation_list :: "(nat \<times> mem_block) list"
  pallocation_counter :: u32
  gc_metadata_count :: u32

definition initialize_metadata_pool :: "pool_heap \<Rightarrow> pool_heap" where
  "initialize_metadata_pool s = s\<lparr>free_metadata_list := [0..<MAX_ALLOCATIONS]\<rparr>"

definition kmalloc_pool :: "u32 \<Rightarrow> pool_heap \<Rightarrow> u32 \<times> pool_heap" where
  "kmalloc_pool sz s =
     (if sz = 0 then (NULL, s)
      else let aligned_size = (sz + 3) AND NOT 3 in
        if pheap_offset s + aligned_size \<ge> KERNEL_HEAP_SIZE then (NULL, s)
        else (case free_metadata_list s of
                [] \<Rightarrow> (NULL, s)
              | block # rest \<Rightarrow>
                  (pkernel_heap s + pheap_offset s,
                   s\<lparr>free_metadata_list := rest,
                     pheap_offset := pheap_offset s + aligned_size,
                     pallocation_counter := pallocation_counter s + 1,
                     pallocation_list :=
                       (block, \<lparr>ptr = pkernel_heap s + pheap_offset s,
                                block_size = aligned_size,
                                allocation_id = pallocation_counter s,
                                owner = NULL,
                                is_garbage = 0\<rparr>) # pallocation_list s\<rparr>)))"


section \<open>Data structures of the kernel\<close>

text \<open>
  A C \<open>float\<close> is represented by its IEEE-754 binary32 bit pattern, which is what the
  buffers in memory hold.
\<close>

type_synonym f32 = u32

record HyperVector =
  data :: u32
  capacity :: u32
  active_dims :: u32
  hash_sig :: u32
  valid :: u8

record Gene =
  pattern :: HyperVector
  next_gene :: u32
  fitness :: u32
  mutable :: u8
  name :: string

record Entity =
  entity_id :: u32
  state :: HyperVector
  genome :: u32
  gene_count :: u32
  age :: u32
  interaction_count :: u32
  is_active :: u8
  specialization_scores :: "nat \<Rightarrow> f32"
  resource_allocation :: f32
  confidence :: f32
  domain_name :: string
  task_vector :: HyperVector
  path_id :: u32
  task_alignment :: f32
  fitness_score :: u32
  spawn_count :: u32
  marked_for_gc :: u8
  is_mutant :: u8
  mutation_rate :: u32

record MemoryEntry =
  input_pattern :: HyperVector
  output_pattern :: HyperVector
  timestamp :: u32
  entry_valid :: u8

record KernelPatch =
  patch_pattern :: HyperVector
  replacement :: HyperVector
  address :: u32
  applied :: u8

definition INITIAL_DIMENSIONS :: u32 where
  "INITIAL_DIMENSIONS = 512"

definition MAX_DIMENSIONS :: u32 where
  "MAX_DIMENSIONS = 2048"

definition MAX_MEMORY_ENTRIES :: nat where
  "MAX_MEMORY_ENTRIES = 128"

definition MAX_ENTITIES :: nat where
  "MAX_ENTITIES = 32"

definition MAX_THOUGHTS :: nat where
  "MAX_THOUGHTS = 64"

definition MAX_GENES_PER_ENTITY :: u32 where
  "MAX_GENES_PER_ENTITY = 16"

text \<open>
  The global variables of the kernel (the revision with the emergent memory economy and
  the full update cycle). Arrays are functions of the index. \<open>mem\<close> is the byte memory
  that the \<open>float\<close> buffers of the hypervectors live in; the \<open>Gene\<close> objects, which the
  allocator also places in the arena, are kept as typed objects by address in \<open>genes\<close>,
  and the chain of \<open>mem_block_t\<close> records as the list \<open>allocation_list\<close>, head first.
\<close>

record kstate =
  kernel_heap :: u32
  heap_offset :: u32
  allocation_list :: "mem_block list"
  allocation_counter :: u32
  mem :: "u32 \<Rightarrow> u8"
  genes :: "u32 \<Rightarrow> Gene"
  entity_pool :: "nat \<Rightarrow> Entity"
  active_entity_count :: u32
  memory_pool :: "nat \<Rightarrow> MemoryEntry"
  memory_count :: u32
  global_timestamp :: u32
  thought_space :: "nat \<Rightarrow> HyperVector"
  thought_count :: u32
  global_coherence :: f32

section \<open>The allocator of the emergent memory economy\<close>

text \<open>\<open>sizeof(mem_block_t)\<close> and \<open>sizeof(struct Gene)\<close> on i386.\<close>

definition sizeof_mem_block :: u32 where
  "sizeof_mem_block = 24"

definition sizeof_Gene :: u32 where
  "sizeof_Gene = 48"

text \<open>
  \<open>kmalloc\<close> tracks every allocation in a \<open>mem_block_t\<close> that it obtains by calling
  itself; a failed tracking allocation leaves the data allocation untracked.
\<close>

lemma kmalloc_measure_step:
  "(y::u32) < 0xC0000 \<Longrightarrow> y + 24 < 0xC0000 \<Longrightarrow>
   unat (0xC0000 - (y + 24)) < unat (0xC0000 - y)"
proof -
  assume a: "y < 0xC0000" and b: "y + 24 < 0xC0000"
  have ya: "unat y < 786432" using a by (simp add: word_less_nat_alt)
  have yb: "unat (y + 24) = unat y + 24"
    using ya by (simp add: unat_add_lem [THEN iffD1])
  have "y + 24 \<le> 0xC0000" using b by (rule less_imp_le)
  then have c: "unat (0xC0000 - (y + 24)) = unat (0xC0000 :: u32) - unat (y + 24)"
    by (rule unat_sub)
  have "y \<le> 0xC0000" using a by (rule less_imp_le)
  then have d: "unat (0xC0000 - y) = unat (0xC0000 :: u32) - unat y"
    by (rule unat_sub)
  have "unat (y + 24) < 786432" using b by (simp add: word_less_nat_alt)
  then show ?thesis unfolding c d yb by simp
qed

lemma kmalloc_measure_bound:
  "\<not> 0xC0000 \<le> (y::u32) \<Longrightarrow> unat (0xC0000 - y) + 1 < unat (0xC0000 :: u32) + 2"
  by unat_arith

function kmalloc :: "u32 \<Rightarrow> kstate \<Rightarrow> u32 \<times> kstate" where
  "kmalloc sz s =
     (if heap_offset s + sz \<ge> KERNEL_HEAP_SIZE then (NULL, s)
      else
        let p = kernel_heap s + heap_offset s;
            s1 = s\<lparr>heap_offset := heap_offset s + ((sz + 7) AND NOT 7)\<rparr>;
            (block, s2) = kmalloc sizeof_mem_block s1
        in if block \<noteq> NULL
           then (p, s2\<lparr>allocation_counter := allocation_counter s2 + 1,
                       allocation_list :=
                         \<lparr>ptr = p, block_size = sz,
                          allocation_id = allocation_counter s2,
                          owner = NULL, is_garbage = 0\<rparr> # allocation_list s2\<rparr>)
           else (p, s2))"
  by pat_completeness auto
termination
proof (relation "measure (\<lambda>(sz, s).
          if heap_offset s + sz \<ge> KERNEL_HEAP_SIZE then 0
          else if sz = sizeof_mem_block
               then unat (KERNEL_HEAP_SIZE - (heap_offset s + sz)) + 1
               else unat KERNEL_HEAP_SIZE + 2)", goal_cases)
  case 1
  show ?case by simp
next
  case (2 sz s x xa)
  show ?case
  proof (cases "sz = sizeof_mem_block")
    case True
    from 2(1) True have lt: "heap_offset s + 24 < 0xC0000"
      by (simp add: not_le sizeof_mem_block_def KERNEL_HEAP_SIZE_def)
    have off: "heap_offset xa = heap_offset s + 24"
      using 2(3) True by (simp add: sizeof_mem_block_def)
    show ?thesis
    proof (cases "KERNEL_HEAP_SIZE \<le> heap_offset xa + sizeof_mem_block")
      case True
      with 2(1) show ?thesis by simp
    next
      case False
      then have "heap_offset s + 24 + 24 < 0xC0000"
        by (simp add: off not_le sizeof_mem_block_def KERNEL_HEAP_SIZE_def)
      from kmalloc_measure_step [OF lt this] False 2(1) True
      show ?thesis
        by (simp add: off sizeof_mem_block_def KERNEL_HEAP_SIZE_def)
    qed
  next
    case False
    show ?thesis
    proof (cases "KERNEL_HEAP_SIZE \<le> heap_offset xa + sizeof_mem_block")
      case True
      with 2(1) False show ?thesis by simp
    next
      case F: False
      then have "\<not> 0xC0000 \<le> heap_offset xa + 24"
        by (simp add: sizeof_mem_block_def KERNEL_HEAP_SIZE_def)
      from kmalloc_measure_bound [OF this] F 2(1) False
      show ?thesis
        by (simp add: sizeof_mem_block_def KERNEL_HEAP_SIZE_def)
    qed
  qed
qed

declare kmalloc.simps [simp del]

text \<open>
  Static storage is zero-initialised: the state of the globals before \<open>kmain\<close> runs,
  for a heap that the linker places at \<open>base\<close>.
\<close>

definition zero_HyperVector :: HyperVector where
  "zero_HyperVector = \<lparr>data = NULL, capacity = 0, active_dims = 0, hash_sig = 0, valid = 0\<rparr>"

definition zero_Gene :: Gene where
  "zero_Gene = \<lparr>pattern = zero_HyperVector, next_gene = NULL, fitness = 0, mutable = 0,
     name = []\<rparr>"

definition zero_Entity :: Entity where
  "zero_Entity = \<lparr>entity_id = 0, state = zero_HyperVector, genome = NULL, gene_count = 0,
     age = 0, interaction_count = 0, is_active = 0, specialization_scores = (\<lambda>_. 0),
     resource_allocation = 0, confidence = 0, domain_name = [],
     task_vector = zero_HyperVector, path_id = 0, task_alignment = 0, fitness_score = 0,
     spawn_count = 0, marked_for_gc = 0, is_mutant = 0, mutation_rate = 0\<rparr>"

definition zero_MemoryEntry :: MemoryEntry where
  "zero_MemoryEntry = \<lparr>input_pattern = zero_HyperVector, output_pattern = zero_HyperVector,
     timestamp = 0, entry_valid = 0\<rparr>"

definition boot_state :: "u32 \<Rightarrow> kstate" where
  "boot_state base = \<lparr>kernel_heap = base, heap_offset = 0, allocation_list = [],
     allocation_counter = 0, mem = (\<lambda>_. 0), genes = (\<lambda>_. zero_Gene),
     entity_pool = (\<lambda>_. zero_Entity), active_entity_count = 0,
     memory_pool = (\<lambda>_. zero_MemoryEntry), memory_count = 0, global_timestamp = 0,
     thought_space = (\<lambda>_. zero_HyperVector), thought_count = 0, global_coherence = 0\<rparr>"

section \<open>Floating point\<close>

text \<open>
  The arithmetic of the floating-point unit (rounding, excess precision, and the
  conversion of a \<open>float\<close> to \<open>uint32_t\<close>, which C leaves undefined for negative and for
  large values) is a parameter of the model: every operation that computes with
  \<open>float\<close>s takes the unit \<open>fp\<close>. Comparisons of two \<open>float\<close>s are exact and are defined on
  the bit patterns; \<open>float\<close> literals are the bit patterns of their binary32 values.
\<close>

record fpu =
  fadd :: "f32 \<Rightarrow> f32 \<Rightarrow> f32"
  fsub :: "f32 \<Rightarrow> f32 \<Rightarrow> f32"
  fmul :: "f32 \<Rightarrow> f32 \<Rightarrow> f32"
  fdiv :: "f32 \<Rightarrow> f32 \<Rightarrow> f32"
  u2f :: "u32 \<Rightarrow> f32"
  f2u :: "f32 \<Rightarrow> u32"

definition f_is_nan :: "f32 \<Rightarrow> bool" where
  "f_is_nan x = (0x7F800000 < (x AND 0x7FFFFFFF))"

definition f_key :: "f32 \<Rightarrow> int" where
  "f_key x = (if x AND 0x80000000 = 0 then uint x else - uint (x AND 0x7FFFFFFF))"

definition flt :: "f32 \<Rightarrow> f32 \<Rightarrow> bool" where
  "flt a b = (\<not> f_is_nan a \<and> \<not> f_is_nan b \<and> f_key a < f_key b)"

definition fgt :: "f32 \<Rightarrow> f32 \<Rightarrow> bool" where
  "fgt a b = flt b a"

definition f_0_0 :: f32 where "f_0_0 = 0x00000000"
definition f_0_05 :: f32 where "f_0_05 = 0x3D4CCCCD"
definition f_0_1 :: f32 where "f_0_1 = 0x3DCCCCCD"
definition f_0_2 :: f32 where "f_0_2 = 0x3E4CCCCD"
definition f_0_3 :: f32 where "f_0_3 = 0x3E99999A"
definition f_0_4 :: f32 where "f_0_4 = 0x3ECCCCCD"
definition f_0_5 :: f32 where "f_0_5 = 0x3F000000"
definition f_0_6 :: f32 where "f_0_6 = 0x3F19999A"
definition f_0_8 :: f32 where "f_0_8 = 0x3F4CCCCD"
definition f_1_0 :: f32 where "f_1_0 = 0x3F800000"
definition f_1_5 :: f32 where "f_1_5 = 0x3FC00000"
definition f_9_0 :: f32 where "f_9_0 = 0x41100000"
definition f_10_0 :: f32 where "f_10_0 = 0x41200000"
definition f_1000_0 :: f32 where "f_1000_0 = 0x447A0000"
definition f_10000_0 :: f32 where "f_10000_0 = 0x461C4000"
definition f_1e_10 :: f32 where "f_1e_10 = 0x2EDBE6FF"

section \<open>An IEEE-754 binary32 unit\<close>

text \<open>
  One floating-point unit, used to run the model on concrete inputs: every operation
  rounds its exact result to the nearest binary32 value, ties to even. A magnitude is
  the fraction of two natural numbers. The conversion to \<open>uint32_t\<close> truncates; where C
  leaves it undefined this unit yields 0.
\<close>

definition f_sign :: "f32 \<Rightarrow> bool" where
  "f_sign x = (x AND 0x80000000 \<noteq> 0)"

definition f_expo :: "f32 \<Rightarrow> nat" where
  "f_expo x = unat (drop_bit 23 x AND 0xFF)"

definition f_mant :: "f32 \<Rightarrow> nat" where
  "f_mant x = unat (x AND 0x7FFFFF)"

definition f_is_inf :: "f32 \<Rightarrow> bool" where
  "f_is_inf x = (x AND 0x7FFFFFFF = 0x7F800000)"

text \<open>Numerator and denominator of the magnitude of a finite value.\<close>

definition f_num :: "f32 \<Rightarrow> nat" where
  "f_num x =
     (if f_expo x = 0 then f_mant x
      else if f_expo x < 150 then 2 ^ 23 + f_mant x
      else (2 ^ 23 + f_mant x) * 2 ^ (f_expo x - 150))"

definition f_den :: "f32 \<Rightarrow> nat" where
  "f_den x =
     (if f_expo x = 0 then 2 ^ 149
      else if f_expo x < 150 then 2 ^ (150 - f_expo x)
      else 1)"

fun ilog2 :: "nat \<Rightarrow> nat" where
  "ilog2 n = (if n < 2 then 0 else Suc (ilog2 (n div 2)))"

declare ilog2.simps [simp del]

text \<open>The exponent \<open>e\<close> with \<open>2 ^ e \<le> p / q < 2 ^ (e + 1)\<close>, for \<open>p > 0\<close> and \<open>q > 0\<close>.\<close>

definition floor_log2 :: "nat \<Rightarrow> nat \<Rightarrow> int" where
  "floor_log2 p q =
     (if q \<le> p then int (ilog2 (p div q))
      else - int (Suc (ilog2 ((q + p - 1) div p - 1))))"

definition round_even :: "nat \<Rightarrow> nat \<Rightarrow> nat" where
  "round_even n d =
     (if 2 * (n mod d) < d then n div d
      else if d < 2 * (n mod d) then n div d + 1
      else if even (n div d) then n div d else n div d + 1)"

definition f_round_mag :: "nat \<Rightarrow> nat \<Rightarrow> f32" where
  "f_round_mag p q =
     (if p = 0 then 0
      else
        let e = max (floor_log2 p q) (- 126);
            bits = nat (e + 126) * 2 ^ 23 +
              (if 23 \<le> e then round_even p (q * 2 ^ nat (e - 23))
               else round_even (p * 2 ^ nat (23 - e)) q)
        in if 0x7F800000 \<le> bits then 0x7F800000 else word_of_nat bits)"

definition f_pack :: "bool \<Rightarrow> f32 \<Rightarrow> f32" where
  "f_pack negative magnitude = (if negative then magnitude OR 0x80000000 else magnitude)"

definition f_qnan :: f32 where
  "f_qnan = 0x7FC00000"

text \<open>The signed numerator of a finite value over the denominator \<open>f_den\<close>.\<close>

definition f_snum :: "f32 \<Rightarrow> int" where
  "f_snum x = (if f_sign x then - int (f_num x) else int (f_num x))"

definition ieee_add :: "f32 \<Rightarrow> f32 \<Rightarrow> f32" where
  "ieee_add a b =
     (if f_is_nan a \<or> f_is_nan b then f_qnan
      else if f_is_inf a then (if f_is_inf b \<and> f_sign a \<noteq> f_sign b then f_qnan else a)
      else if f_is_inf b then b
      else
        let n = f_snum a * int (f_den b) + f_snum b * int (f_den a)
        in if n = 0 then f_pack (f_sign a \<and> f_sign b) 0
           else f_pack (n < 0) (f_round_mag (nat \<bar>n\<bar>) (f_den a * f_den b)))"

definition ieee_sub :: "f32 \<Rightarrow> f32 \<Rightarrow> f32" where
  "ieee_sub a b = ieee_add a (b XOR 0x80000000)"

definition ieee_mul :: "f32 \<Rightarrow> f32 \<Rightarrow> f32" where
  "ieee_mul a b =
     (if f_is_nan a \<or> f_is_nan b then f_qnan
      else if f_is_inf a then (if f_num b = 0 then f_qnan
                               else f_pack (f_sign a \<noteq> f_sign b) 0x7F800000)
      else if f_is_inf b then (if f_num a = 0 then f_qnan
                               else f_pack (f_sign a \<noteq> f_sign b) 0x7F800000)
      else f_pack (f_sign a \<noteq> f_sign b)
             (f_round_mag (f_num a * f_num b) (f_den a * f_den b)))"

definition ieee_div :: "f32 \<Rightarrow> f32 \<Rightarrow> f32" where
  "ieee_div a b =
     (if f_is_nan a \<or> f_is_nan b then f_qnan
      else if f_is_inf a then (if f_is_inf b then f_qnan
                               else f_pack (f_sign a \<noteq> f_sign b) 0x7F800000)
      else if f_is_inf b then f_pack (f_sign a \<noteq> f_sign b) 0
      else if f_num b = 0 then (if f_num a = 0 then f_qnan
                                else f_pack (f_sign a \<noteq> f_sign b) 0x7F800000)
      else f_pack (f_sign a \<noteq> f_sign b)
             (f_round_mag (f_num a * f_den b) (f_den a * f_num b)))"

definition ieee_u2f :: "u32 \<Rightarrow> f32" where
  "ieee_u2f n = f_round_mag (unat n) 1"

definition ieee_f2u :: "f32 \<Rightarrow> u32" where
  "ieee_f2u x =
     (if \<not> f_is_nan x \<and> \<not> f_is_inf x \<and> (f_sign x \<longrightarrow> f_num x < f_den x) \<and>
         f_num x div f_den x < 2 ^ 32
      then word_of_nat (f_num x div f_den x) else 0)"

definition ieee :: fpu where
  "ieee = \<lparr>fadd = ieee_add, fsub = ieee_sub, fmul = ieee_mul, fdiv = ieee_div,
            u2f = ieee_u2f, f2u = ieee_f2u\<rparr>"


section \<open>Memory\<close>

text \<open>Little-endian access to a 32 bit value, as on i386.\<close>

definition load32 :: "(u32 \<Rightarrow> u8) \<Rightarrow> u32 \<Rightarrow> u32" where
  "load32 m a = word_of_nat (unat (m a) + 256 * unat (m (a + 1)) +
      65536 * unat (m (a + 2)) + 16777216 * unat (m (a + 3)))"

definition store32 :: "(u32 \<Rightarrow> u8) \<Rightarrow> u32 \<Rightarrow> u32 \<Rightarrow> (u32 \<Rightarrow> u8)" where
  "store32 m a w = m(a := ucast w, a + 1 := ucast (drop_bit 8 w),
      a + 2 := ucast (drop_bit 16 w), a + 3 := ucast (drop_bit 24 w))"

text \<open>\<open>memset\<close> and \<open>memcpy\<close>: the byte loops of the source, from index \<open>i\<close> for \<open>k\<close> steps.\<close>

primrec memset_loop :: "(u32 \<Rightarrow> u8) \<Rightarrow> u32 \<Rightarrow> u8 \<Rightarrow> nat \<Rightarrow> nat \<Rightarrow> (u32 \<Rightarrow> u8)" where
  "memset_loop m p v i 0 = m"
| "memset_loop m p v i (Suc k) = memset_loop (m(p + word_of_nat i := v)) p v (Suc i) k"

definition memset :: "(u32 \<Rightarrow> u8) \<Rightarrow> u32 \<Rightarrow> u8 \<Rightarrow> u32 \<Rightarrow> (u32 \<Rightarrow> u8)" where
  "memset m p v n = memset_loop m p v 0 (unat n)"

primrec memcpy_loop :: "(u32 \<Rightarrow> u8) \<Rightarrow> u32 \<Rightarrow> u32 \<Rightarrow> nat \<Rightarrow> nat \<Rightarrow> (u32 \<Rightarrow> u8)" where
  "memcpy_loop m d src i 0 = m"
| "memcpy_loop m d src i (Suc k) =
     memcpy_loop (m(d + word_of_nat i := m (src + word_of_nat i))) d src (Suc i) k"

definition memcpy :: "(u32 \<Rightarrow> u8) \<Rightarrow> u32 \<Rightarrow> u32 \<Rightarrow> u32 \<Rightarrow> (u32 \<Rightarrow> u8)" where
  "memcpy m d src n = memcpy_loop m d src 0 (unat n)"

definition read_bytes :: "(u32 \<Rightarrow> u8) \<Rightarrow> u32 \<Rightarrow> nat \<Rightarrow> u8 list" where
  "read_bytes m p n = map (\<lambda>i. m (p + word_of_nat i)) [0..<n]"

section \<open>HyperVector engine\<close>

text \<open>\<open>hash_data\<close> over the bytes it is given, and over \<open>size\<close> bytes of memory.\<close>

definition hash_bytes :: "u8 list \<Rightarrow> u32" where
  "hash_bytes bs = fold (\<lambda>b h. (h XOR ucast b) * 16777619) bs 2166136261"

definition hash_data :: "(u32 \<Rightarrow> u8) \<Rightarrow> u32 \<Rightarrow> u32 \<Rightarrow> u32" where
  "hash_data m p n = hash_bytes (read_bytes m p (unat n))"

lemma loop_measure_step: "(i::u32) < c \<Longrightarrow> unat (c - (i + 1)) < unat (c - i)"
proof -
  assume a: "i < c"
  then have ic: "unat i < unat c" by (simp add: word_less_nat_alt)
  have "unat c < 2 ^ 32" using unsigned_less [of c] by simp
  with ic have i1: "unat (i + 1) = unat i + 1"
    by (simp add: unat_add_lem [THEN iffD1])
  with ic have "i + 1 \<le> c" by (simp add: word_le_nat_alt)
  then have "unat (c - (i + 1)) = unat c - unat (i + 1)" by (rule unat_sub)
  moreover have "unat (c - i) = unat c - unat i"
    using a by (intro unat_sub less_imp_le)
  ultimately show ?thesis using ic i1 by simp
qed

text \<open>
  The loop of \<open>create_hyper_vector\<close> over the dimensions \<open>i, i + 1, \<dots>, capacity - 1\<close>.
  \<open>seed % 2000 - 1000\<close> is an unsigned subtraction.
\<close>

function hv_fill :: "fpu \<Rightarrow> HyperVector \<Rightarrow> u32 \<Rightarrow> u32 \<Rightarrow> (u32 \<Rightarrow> u8)
    \<Rightarrow> HyperVector \<times> (u32 \<Rightarrow> u8)" where
  "hv_fill fp vec i seed m =
     (if i < capacity vec then
        let seed' = (seed * 1103515245 + 12345) AND 0x7fffffff in
        if seed' mod 10 = 0
        then hv_fill fp (vec\<lparr>active_dims := active_dims vec + 1\<rparr>) (i + 1) seed'
               (store32 m (data vec + 4 * i)
                  (fdiv fp (u2f fp (seed' mod 2000 - 1000)) f_1000_0))
        else hv_fill fp vec (i + 1) seed' m
      else (vec, m))"
  by pat_completeness auto
termination
  by (relation "measure (\<lambda>(fp, vec, i, seed, m). unat (capacity vec - i))")
     (auto simp: loop_measure_step)

declare hv_fill.simps [simp del]

text \<open>
  \<open>create_hyper_vector(input, size)\<close>, where \<open>input\<close> is the list of the \<open>size\<close> bytes
  that the pointer refers to.
\<close>

definition create_hyper_vector :: "fpu \<Rightarrow> u8 list \<Rightarrow> kstate \<Rightarrow> HyperVector \<times> kstate" where
  "create_hyper_vector fp input s =
     (let vec = zero_HyperVector\<lparr>capacity := INITIAL_DIMENSIONS\<rparr>;
          (p, s1) = kmalloc (capacity vec * 4) s;
          vec = vec\<lparr>data := p\<rparr>
      in if data vec = NULL then (vec\<lparr>valid := 0\<rparr>, s1)
         else
           let m1 = memset (mem s1) (data vec) 0 (capacity vec * 4);
               seed = hash_bytes input;
               vec = vec\<lparr>hash_sig := seed\<rparr>;
               (vec, m2) = hv_fill fp vec 0 seed m1;
               vec = vec\<lparr>hash_sig := hash_data m2 (data vec) (active_dims vec * 4)\<rparr>
           in (vec\<lparr>valid := 1\<rparr>, s1\<lparr>mem := m2\<rparr>))"

definition copy_hyper_vector :: "HyperVector \<Rightarrow> kstate \<Rightarrow> HyperVector \<times> kstate" where
  "copy_hyper_vector src s =
     (if valid src = 0 \<or> data src = NULL then (zero_HyperVector, s)
      else
        let dst = zero_HyperVector\<lparr>capacity := capacity src, active_dims := active_dims src\<rparr>;
            (p, s1) = kmalloc (capacity dst * 4) s;
            dst = dst\<lparr>data := p\<rparr>
        in if data dst = NULL then (dst\<lparr>valid := 0\<rparr>, s1)
           else (dst\<lparr>hash_sig := hash_sig src, valid := 1\<rparr>,
                 s1\<lparr>mem := memcpy (mem s1) (data dst) (data src) (capacity dst * 4)\<rparr>))"


section \<open>Similarity and coherence\<close>

definition fle :: "f32 \<Rightarrow> f32 \<Rightarrow> bool" where
  "fle a b = (\<not> f_is_nan a \<and> \<not> f_is_nan b \<and> f_key a \<le> f_key b)"

text \<open>
  The kernel's own \<open>sqrtf\<close>: one step on the bit pattern of \<open>x\<close>, then the reciprocal. The
  correction term multiplies \<open>x_half\<close> by \<open>x\<close> twice, as the source does.
\<close>

definition sqrtf :: "fpu \<Rightarrow> f32 \<Rightarrow> f32" where
  "sqrtf fp x =
     (if fle x f_0_0 then f_0_0
      else let x_half = fmul fp f_0_5 x;
               u = 0x5f3759df - drop_bit 1 x;
               x' = fmul fp u (fsub fp f_1_5 (fmul fp (fmul fp x_half x) x))
           in fdiv fp f_1_0 x')"

function sim_loop :: "fpu \<Rightarrow> (u32 \<Rightarrow> u8) \<Rightarrow> u32 \<Rightarrow> u32 \<Rightarrow> u32 \<Rightarrow> u32
    \<Rightarrow> f32 \<times> f32 \<times> f32 \<Rightarrow> f32 \<times> f32 \<times> f32" where
  "sim_loop fp m da db min_dims i acc =
     (if i < min_dims then
        (case acc of (dot, mag_a, mag_b) \<Rightarrow>
           let x = load32 m (da + 4 * i); y = load32 m (db + 4 * i)
           in sim_loop fp m da db min_dims (i + 1)
                (fadd fp dot (fmul fp x y), fadd fp mag_a (fmul fp x x),
                 fadd fp mag_b (fmul fp y y)))
      else acc)"
  by pat_completeness auto
termination
  by (relation "measure (\<lambda>(fp, m, da, db, min_dims, i, acc). unat (min_dims - i))")
     (auto simp: loop_measure_step)

declare sim_loop.simps [simp del]

definition compute_similarity :: "fpu \<Rightarrow> (u32 \<Rightarrow> u8) \<Rightarrow> HyperVector \<Rightarrow> HyperVector \<Rightarrow> f32" where
  "compute_similarity fp m a b =
     (if valid a = 0 \<or> valid b = 0 \<or> data a = NULL \<or> data b = NULL then f_0_0
      else
        let min_dims = (if active_dims a < active_dims b then active_dims a else active_dims b)
        in if min_dims = 0 then f_0_0
           else
             (case sim_loop fp m (data a) (data b) min_dims 0 (f_0_0, f_0_0, f_0_0) of
                (dot, mag_a, mag_b) \<Rightarrow>
                  let mag_a = (if fgt mag_a f_0_0 then sqrtf fp mag_a else f_1_0);
                      mag_b = (if fgt mag_b f_0_0 then sqrtf fp mag_b else f_1_0)
                  in if flt (fmul fp mag_a mag_b) f_1e_10 then f_0_0
                     else fdiv fp dot (fmul fp mag_a mag_b)))"

function coherence_loop :: "fpu \<Rightarrow> HyperVector \<Rightarrow> kstate \<Rightarrow> u32 \<Rightarrow> f32 \<times> u32 \<Rightarrow> f32 \<times> u32" where
  "coherence_loop fp thought s i acc =
     (if i < thought_count s then
        (case acc of (coherence, valid_count) \<Rightarrow>
           coherence_loop fp thought s (i + 1)
             (if valid (thought_space s (unat i)) \<noteq> 0
              then (fadd fp coherence
                      (compute_similarity fp (mem s) thought (thought_space s (unat i))),
                    valid_count + 1)
              else (coherence, valid_count)))
      else acc)"
  by pat_completeness auto
termination
  by (relation "measure (\<lambda>(fp, thought, s, i, acc). unat (thought_count s - i))")
     (auto simp: loop_measure_step)

declare coherence_loop.simps [simp del]

definition compute_coherence :: "fpu \<Rightarrow> HyperVector \<Rightarrow> kstate \<Rightarrow> f32" where
  "compute_coherence fp thought s =
     (if thought_count s = 0 then f_1_0
      else (case coherence_loop fp thought s 0 (f_0_0, 0) of
              (coherence, valid_count) \<Rightarrow>
                if valid_count \<noteq> 0 then fdiv fp coherence (u2f fp valid_count) else f_0_0))"

section \<open>Freeing, and the re-entrant garbage collector\<close>

text \<open>
  \<open>kfree\<close> calls \<open>perform_emergent_garbage_collection\<close> when less than a fifth of the
  arena is free, and the collector frees through \<open>kfree\<close>: the two are mutually recursive
  and nothing bounds the depth. The functions below take the collector as the argument
  \<open>gc\<close>; a result \<open>None\<close> says that the call does not return within the bound on nested
  collections and loop iterations that \<open>perform_emergent_garbage_collection\<close> is run with.
\<close>

fun mark_garbage :: "u32 \<Rightarrow> mem_block list \<Rightarrow> mem_block list" where
  "mark_garbage p [] = []"
| "mark_garbage p (b # bs) =
     (if ptr b = p then b\<lparr>is_garbage := 1\<rparr> # bs else b # mark_garbage p bs)"

definition free_fraction :: "fpu \<Rightarrow> u32 \<Rightarrow> f32" where
  "free_fraction fp off = fdiv fp (u2f fp (KERNEL_HEAP_SIZE - off)) (u2f fp KERNEL_HEAP_SIZE)"

definition free_space_low :: "fpu \<Rightarrow> kstate \<Rightarrow> bool" where
  "free_space_low fp s = flt (free_fraction fp (heap_offset s)) f_0_2"

definition kfree_with :: "(kstate \<Rightarrow> kstate option) \<Rightarrow> fpu \<Rightarrow> u32 \<Rightarrow> kstate \<Rightarrow> kstate option" where
  "kfree_with gc fp p s =
     (if p = NULL then Some s
      else let s1 = s\<lparr>allocation_list := mark_garbage p (allocation_list s)\<rparr>
           in if free_space_low fp s1 then gc s1 else Some s1)"

text \<open>The places where the kernel keeps a \<open>HyperVector\<close> that it destroys by pointer.\<close>

datatype hv_loc = EntityState nat | EntityTask nat | GenePattern u32 | Thought nat
  | MemoryInput nat | MemoryOutput nat

fun get_hv :: "hv_loc \<Rightarrow> kstate \<Rightarrow> HyperVector" where
  "get_hv (EntityState i) s = state (entity_pool s i)"
| "get_hv (EntityTask i) s = task_vector (entity_pool s i)"
| "get_hv (GenePattern g) s = pattern (genes s g)"
| "get_hv (Thought i) s = thought_space s i"
| "get_hv (MemoryInput i) s = input_pattern (memory_pool s i)"
| "get_hv (MemoryOutput i) s = output_pattern (memory_pool s i)"

fun set_hv :: "hv_loc \<Rightarrow> HyperVector \<Rightarrow> kstate \<Rightarrow> kstate" where
  "set_hv (EntityState i) v s =
     s\<lparr>entity_pool := (entity_pool s)(i := (entity_pool s i)\<lparr>state := v\<rparr>)\<rparr>"
| "set_hv (EntityTask i) v s =
     s\<lparr>entity_pool := (entity_pool s)(i := (entity_pool s i)\<lparr>task_vector := v\<rparr>)\<rparr>"
| "set_hv (GenePattern g) v s = s\<lparr>genes := (genes s)(g := (genes s g)\<lparr>pattern := v\<rparr>)\<rparr>"
| "set_hv (Thought i) v s = s\<lparr>thought_space := (thought_space s)(i := v)\<rparr>"
| "set_hv (MemoryInput i) v s =
     s\<lparr>memory_pool := (memory_pool s)(i := (memory_pool s i)\<lparr>input_pattern := v\<rparr>)\<rparr>"
| "set_hv (MemoryOutput i) v s =
     s\<lparr>memory_pool := (memory_pool s)(i := (memory_pool s i)\<lparr>output_pattern := v\<rparr>)\<rparr>"

text \<open>
  \<open>destroy_hyper_vector(vec)\<close> for a vector in the kernel's state: the fields are cleared
  after \<open>kfree\<close> returns, in whatever the place holds by then.
\<close>

definition destroy_hyper_vector_with ::
    "(kstate \<Rightarrow> kstate option) \<Rightarrow> fpu \<Rightarrow> hv_loc \<Rightarrow> kstate \<Rightarrow> kstate option" where
  "destroy_hyper_vector_with gc fp loc s =
     (if data (get_hv loc s) \<noteq> NULL
      then (case kfree_with gc fp (data (get_hv loc s)) s of
              None \<Rightarrow> None
            | Some s1 \<Rightarrow> Some (set_hv loc ((get_hv loc s1)\<lparr>data := NULL, valid := 0\<rparr>) s1))
      else Some s)"

text \<open>The same for a vector in a local variable, whose fields nobody reads afterwards.\<close>

definition destroy_local_with ::
    "(kstate \<Rightarrow> kstate option) \<Rightarrow> fpu \<Rightarrow> HyperVector \<Rightarrow> kstate \<Rightarrow> kstate option" where
  "destroy_local_with gc fp vec s =
     (if data vec \<noteq> NULL then kfree_with gc fp (data vec) s else Some s)"

section \<open>Collective consciousness\<close>

definition shift_thoughts :: "(nat \<Rightarrow> HyperVector) \<Rightarrow> (nat \<Rightarrow> HyperVector)" where
  "shift_thoughts ts = fold (\<lambda>i t. t(i := t (i + 1))) [0..<MAX_THOUGHTS - 1] ts"

definition broadcast_thought_with ::
    "(kstate \<Rightarrow> kstate option) \<Rightarrow> fpu \<Rightarrow> HyperVector \<Rightarrow> kstate \<Rightarrow> kstate option" where
  "broadcast_thought_with gc fp thought s =
     (if valid thought = 0 then Some s
      else
        (case (if thought_count s \<ge> word_of_nat MAX_THOUGHTS
               then (case destroy_hyper_vector_with gc fp (Thought 0) s of
                       None \<Rightarrow> None
                     | Some s1 \<Rightarrow>
                         Some (s1\<lparr>thought_space := shift_thoughts (thought_space s1),
                                  thought_count := word_of_nat (MAX_THOUGHTS - 1)\<rparr>))
               else Some s) of
           None \<Rightarrow> None
         | Some s2 \<Rightarrow>
             (case copy_hyper_vector thought s2 of
                (c, s3) \<Rightarrow>
                  let s4 = s3\<lparr>thought_space :=
                                 (thought_space s3)(unat (thought_count s3) := c\<lparr>valid := 1\<rparr>),
                               thought_count := thought_count s3 + 1\<rparr>;
                      coherence = compute_coherence fp thought s4
                  in Some (s4\<lparr>global_coherence :=
                       fdiv fp (fadd fp (fmul fp (global_coherence s4) f_9_0) coherence)
                         f_10_0\<rparr>))))"


section \<open>Emergent garbage collection\<close>

definition bytes_of_string :: "string \<Rightarrow> u8 list" where
  "bytes_of_string cs = map (\<lambda>c. word_of_nat (of_char c)) cs"

fun destroy_genome_with ::
    "(kstate \<Rightarrow> kstate option) \<Rightarrow> fpu \<Rightarrow> nat \<Rightarrow> u32 \<Rightarrow> kstate \<Rightarrow> kstate option" where
  "destroy_genome_with gc fp 0 current s = (if current = NULL then Some s else None)"
| "destroy_genome_with gc fp (Suc n) current s =
     (if current = NULL then Some s
      else
        let nxt = next_gene (genes s current) in
        (case destroy_hyper_vector_with gc fp (GenePattern current) s of
           None \<Rightarrow> None
         | Some s1 \<Rightarrow>
             (case kfree_with gc fp current s1 of
                None \<Rightarrow> None
              | Some s2 \<Rightarrow> destroy_genome_with gc fp n nxt s2)))"

text \<open>
  The search for the weakest gene: \<open>current\<close>, \<open>prev\<close>, \<open>weakest_gene\<close> and
  \<open>weakest_prev\<close> of the source; the result is the last two.
\<close>

fun find_weakest :: "nat \<Rightarrow> (u32 \<Rightarrow> Gene) \<Rightarrow> u32 \<Rightarrow> u32 \<Rightarrow> u32 \<Rightarrow> u32 \<Rightarrow> (u32 \<times> u32) option" where
  "find_weakest 0 g current prev weakest_gene weakest_prev =
     (if current = NULL then Some (weakest_gene, weakest_prev) else None)"
| "find_weakest (Suc n) g current prev weakest_gene weakest_prev =
     (if current = NULL then Some (weakest_gene, weakest_prev)
      else if weakest_gene = NULL \<or> fitness (g current) < fitness (g weakest_gene)
           then find_weakest n g (next_gene (g current)) current current prev
           else find_weakest n g (next_gene (g current)) current weakest_gene weakest_prev)"

text \<open>The sacrifice probability, from the entity's confidence, age and fitness score.\<close>

definition sacrifice_probability :: "fpu \<Rightarrow> f32 \<Rightarrow> u32 \<Rightarrow> u32 \<Rightarrow> f32" where
  "sacrifice_probability fp conf ag fit =
     fsub fp
       (fadd fp
          (fadd fp f_0_05 (fmul fp (fsub fp f_1_0 conf) f_0_2))
          (fmul fp (fdiv fp (u2f fp ag) f_10000_0) f_0_3))
       (fmul fp (fdiv fp (u2f fp fit) f_1000_0) f_0_4)"

definition sacrifice_threshold :: "fpu \<Rightarrow> f32 \<Rightarrow> u32 \<Rightarrow> u32 \<Rightarrow> u32" where
  "sacrifice_threshold fp conf ag fit =
     f2u fp (fmul fp (sacrifice_probability fp conf ag fit) f_1000_0)"

definition random_roll :: "kstate \<Rightarrow> Entity \<Rightarrow> u32" where
  "random_roll s e = (global_timestamp s * entity_id e) mod 1000"

definition volunteers :: "fpu \<Rightarrow> kstate \<Rightarrow> Entity \<Rightarrow> bool" where
  "volunteers fp s e =
     (random_roll s e < sacrifice_threshold fp (confidence e) (age e) (fitness_score e))"

definition update_entity :: "nat \<Rightarrow> (Entity \<Rightarrow> Entity) \<Rightarrow> kstate \<Rightarrow> kstate" where
  "update_entity i f s = s\<lparr>entity_pool := (entity_pool s)(i := f (entity_pool s i))\<rparr>"

text \<open>The body of the collector's loop for the entity in slot \<open>i\<close>.\<close>

definition gc_entity_with ::
    "(kstate \<Rightarrow> kstate option) \<Rightarrow> fpu \<Rightarrow> nat \<Rightarrow> nat \<Rightarrow> kstate \<Rightarrow> kstate option" where
  "gc_entity_with gc fp n i s =
     (let entity = entity_pool s i in
      if is_active entity = 0 then Some s
      else if volunteers fp s entity then
        (case destroy_genome_with gc fp n (genome entity) s of
           None \<Rightarrow> None
         | Some s1 \<Rightarrow>
             (case destroy_hyper_vector_with gc fp (EntityState i) s1 of
                None \<Rightarrow> None
              | Some s2 \<Rightarrow>
                  (case destroy_hyper_vector_with gc fp (EntityTask i) s2 of
                     None \<Rightarrow> None
                   | Some s3 \<Rightarrow>
                       Some (update_entity i
                         (\<lambda>e. e\<lparr>genome := NULL, gene_count := 0, is_active := 0\<rparr>) s3))))
      else
        (case find_weakest n (genes s) (genome entity) NULL NULL NULL of
           None \<Rightarrow> None
         | Some (weakest_gene, weakest_prev) \<Rightarrow>
             if weakest_gene \<noteq> NULL \<and> gene_count entity > 1 then
               let s1 = (if weakest_prev \<noteq> NULL
                         then s\<lparr>genes := (genes s)(weakest_prev :=
                                  (genes s weakest_prev)\<lparr>next_gene :=
                                     next_gene (genes s weakest_gene)\<rparr>)\<rparr>
                         else update_entity i
                                (\<lambda>e. e\<lparr>genome := next_gene (genes s weakest_gene)\<rparr>) s)
               in (case destroy_hyper_vector_with gc fp (GenePattern weakest_gene) s1 of
                     None \<Rightarrow> None
                   | Some s2 \<Rightarrow>
                       (case kfree_with gc fp weakest_gene s2 of
                          None \<Rightarrow> None
                        | Some s3 \<Rightarrow>
                            Some (update_entity i
                              (\<lambda>e. e\<lparr>gene_count := gene_count e - 1\<rparr>) s3)))
             else Some s))"

fun gc_loop_with ::
    "(kstate \<Rightarrow> kstate option) \<Rightarrow> fpu \<Rightarrow> nat \<Rightarrow> u32 \<Rightarrow> kstate \<Rightarrow> kstate option" where
  "gc_loop_with gc fp 0 i s = (if i < active_entity_count s then None else Some s)"
| "gc_loop_with gc fp (Suc n) i s =
     (if i < active_entity_count s
      then (case gc_entity_with gc fp n (unat i) s of
              None \<Rightarrow> None
            | Some s1 \<Rightarrow> gc_loop_with gc fp n (i + 1) s1)
      else Some s)"

definition gc_body ::
    "(kstate \<Rightarrow> kstate option) \<Rightarrow> fpu \<Rightarrow> nat \<Rightarrow> kstate \<Rightarrow> kstate option" where
  "gc_body gc fp n s =
     (case create_hyper_vector fp (bytes_of_string ''SYSTEM_MEMORY_PRESSURE'') s of
        (pressure_thought, s1) \<Rightarrow>
          (case (if valid pressure_thought \<noteq> 0
                 then (case broadcast_thought_with gc fp pressure_thought s1 of
                         None \<Rightarrow> None
                       | Some s2 \<Rightarrow> destroy_local_with gc fp pressure_thought s2)
                 else Some s1) of
             None \<Rightarrow> None
           | Some s3 \<Rightarrow> gc_loop_with gc fp n 0 s3))"

text \<open>
  \<open>perform_emergent_garbage_collection\<close>, run with the bound \<open>n\<close>: every nested
  collection and every iteration of a pointer-chasing or entity loop uses one unit.
\<close>

primrec perform_emergent_garbage_collection :: "nat \<Rightarrow> fpu \<Rightarrow> kstate \<Rightarrow> kstate option" where
  "perform_emergent_garbage_collection 0 fp s = None"
| "perform_emergent_garbage_collection (Suc n) fp s =
     gc_body (perform_emergent_garbage_collection n fp) fp n s"

definition kfree :: "nat \<Rightarrow> fpu \<Rightarrow> u32 \<Rightarrow> kstate \<Rightarrow> kstate option" where
  "kfree n fp = kfree_with (perform_emergent_garbage_collection n fp) fp"

definition destroy_hyper_vector :: "nat \<Rightarrow> fpu \<Rightarrow> hv_loc \<Rightarrow> kstate \<Rightarrow> kstate option" where
  "destroy_hyper_vector n fp = destroy_hyper_vector_with (perform_emergent_garbage_collection n fp) fp"

definition broadcast_thought :: "nat \<Rightarrow> fpu \<Rightarrow> HyperVector \<Rightarrow> kstate \<Rightarrow> kstate option" where
  "broadcast_thought n fp = broadcast_thought_with (perform_emergent_garbage_collection n fp) fp"


section \<open>Holographic memory and patch proposals\<close>

definition shift_memory :: "(nat \<Rightarrow> MemoryEntry) \<Rightarrow> (nat \<Rightarrow> MemoryEntry)" where
  "shift_memory mp = fold (\<lambda>i t. t(i := t (i + 1))) [0..<MAX_MEMORY_ENTRIES - 1] mp"

definition encode_holographic_memory_with ::
    "(kstate \<Rightarrow> kstate option) \<Rightarrow> fpu \<Rightarrow> HyperVector \<Rightarrow> HyperVector \<Rightarrow> kstate \<Rightarrow> kstate option" where
  "encode_holographic_memory_with gc fp input output s =
     (case (if memory_count s \<ge> word_of_nat MAX_MEMORY_ENTRIES
            then (case destroy_hyper_vector_with gc fp (MemoryInput 0) s of
                    None \<Rightarrow> None
                  | Some s1 \<Rightarrow>
                      (case destroy_hyper_vector_with gc fp (MemoryOutput 0) s1 of
                         None \<Rightarrow> None
                       | Some s2 \<Rightarrow>
                           Some (s2\<lparr>memory_pool := shift_memory (memory_pool s2),
                                    memory_count := word_of_nat (MAX_MEMORY_ENTRIES - 1)\<rparr>)))
            else Some s) of
        None \<Rightarrow> None
      | Some s3 \<Rightarrow>
          (case copy_hyper_vector input s3 of
             (ci, s4) \<Rightarrow>
               (case copy_hyper_vector output s4 of
                  (co, s5) \<Rightarrow>
                    Some (s5\<lparr>memory_pool := (memory_pool s5)(unat (memory_count s5) :=
                                 \<lparr>input_pattern = ci, output_pattern = co,
                                  timestamp = global_timestamp s5, entry_valid = 1\<rparr>),
                               global_timestamp := global_timestamp s5 + 1,
                               memory_count := memory_count s5 + 1\<rparr>))))"

text \<open>
  \<open>propose_kernel_patch\<close>: the patch is a local variable; its address field is only
  printed.
\<close>

definition propose_kernel_patch_with ::
    "(kstate \<Rightarrow> kstate option) \<Rightarrow> fpu \<Rightarrow> HyperVector \<Rightarrow> HyperVector \<Rightarrow> u32 \<Rightarrow> kstate
     \<Rightarrow> kstate option" where
  "propose_kernel_patch_with gc fp old_pattern new_pattern addr s =
     (case copy_hyper_vector old_pattern s of
        (pp, s1) \<Rightarrow>
          (case copy_hyper_vector new_pattern s1 of
             (pr, s2) \<Rightarrow>
               (case encode_holographic_memory_with gc fp pp pr s2 of
                  None \<Rightarrow> None
                | Some s3 \<Rightarrow> broadcast_thought_with gc fp pr s3)))"

section \<open>Genome\<close>

definition strncpy :: "string \<Rightarrow> nat \<Rightarrow> string" where
  "strncpy src n = take n src"

definition create_gene :: "string \<Rightarrow> HyperVector \<Rightarrow> kstate \<Rightarrow> u32 \<times> kstate" where
  "create_gene nm pat s =
     (case kmalloc sizeof_Gene s of
        (gene, s1) \<Rightarrow>
          if gene = NULL then (NULL, s1)
          else (case copy_hyper_vector pat s1 of
                  (c, s2) \<Rightarrow>
                    (gene, s2\<lparr>genes := (genes s2)(gene :=
                              \<lparr>pattern = c, next_gene = NULL, fitness = 0, mutable = 1,
                               name = strncpy nm 15\<rparr>)\<rparr>)))"

definition add_gene_to_entity :: "nat \<Rightarrow> u32 \<Rightarrow> kstate \<Rightarrow> kstate" where
  "add_gene_to_entity i gene s =
     (if gene = NULL \<or> gene_count (entity_pool s i) \<ge> MAX_GENES_PER_ENTITY then s
      else (update_entity i
              (\<lambda>e. e\<lparr>genome := gene, gene_count := gene_count e + 1\<rparr>)
              (s\<lparr>genes := (genes s)(gene :=
                     (genes s gene)\<lparr>next_gene := genome (entity_pool s i)\<rparr>)\<rparr>)))"

section \<open>Spawning\<close>

text \<open>
  \<open>spawn_entity\<close> returns the slot of the new entity, or \<open>None\<close> for \<open>NULL\<close>. Failing to
  create the state vector or the gene ends in \<open>while(1)\<close>: the call does not return,
  which is the outer \<open>None\<close>.
\<close>

definition cstring :: "string \<Rightarrow> u8 list" where
  "cstring cs = bytes_of_string cs @ [0]"

definition spawn_entity :: "fpu \<Rightarrow> kstate \<Rightarrow> (nat option \<times> kstate) option" where
  "spawn_entity fp s =
     (if active_entity_count s \<ge> word_of_nat MAX_ENTITIES then Some (None, s)
      else
        let i = unat (active_entity_count s);
            s1 = update_entity i
                   (\<lambda>e. e\<lparr>entity_id := active_entity_count s, age := 0,
                           interaction_count := 0, is_active := 1, fitness_score := 0,
                           spawn_count := 0, marked_for_gc := 0, is_mutant := 1,
                           gene_count := 0, genome := NULL, mutation_rate := 100\<rparr>) s
        in (case create_hyper_vector fp (cstring ''TRAIT_EMERGENT'') s1 of
              (st, s2) \<Rightarrow>
                let s3 = update_entity i (\<lambda>e. e\<lparr>state := st\<rparr>) s2 in
                if valid st = 0 then None
                else (case create_gene ''emergent'' st s3 of
                        (emergent_gene, s4) \<Rightarrow>
                          if emergent_gene = NULL then None
                          else
                            let s5 = add_gene_to_entity i emergent_gene s4;
                                s6 = update_entity i
                                  (\<lambda>e. e\<lparr>specialization_scores :=
                                            (\<lambda>d. if d < 8 then f_0_1
                                                  else specialization_scores e d),
                                          resource_allocation := f_1_0,
                                          confidence := f_0_5,
                                          task_alignment := f_0_0,
                                          domain_name := strncpy ''spawned'' 31\<rparr>) s5
                            in Some (Some i,
                                     s6\<lparr>active_entity_count := active_entity_count s6 + 1\<rparr>))))"


section \<open>Resonance with the collective\<close>

function merge_loop :: "fpu \<Rightarrow> (u32 \<Rightarrow> u8) \<Rightarrow> u32 \<Rightarrow> u32 \<Rightarrow> u32 \<Rightarrow> u32 \<Rightarrow> (u32 \<Rightarrow> u8)" where
  "merge_loop fp m dd sd min_dims i =
     (if i < min_dims
      then merge_loop fp
             (store32 m (dd + 4 * i)
                (fmul fp (fadd fp (load32 m (dd + 4 * i)) (load32 m (sd + 4 * i))) f_0_5))
             dd sd min_dims (i + 1)
      else m)"
  by pat_completeness auto
termination
  by (relation "measure (\<lambda>(fp, m, dd, sd, min_dims, i). unat (min_dims - i))")
     (auto simp: loop_measure_step)

declare merge_loop.simps [simp del]

text \<open>\<open>merge_hyper_vectors(&entity_pool[i].state, src)\<close>.\<close>

definition merge_hyper_vectors :: "fpu \<Rightarrow> nat \<Rightarrow> HyperVector \<Rightarrow> kstate \<Rightarrow> kstate" where
  "merge_hyper_vectors fp i src s =
     (let dest = state (entity_pool s i) in
      if valid dest = 0 \<or> valid src = 0 then s
      else
        let min_dims = (if active_dims dest < active_dims src
                        then active_dims dest else active_dims src);
            m' = merge_loop fp (mem s) (data dest) (data src) min_dims 0
        in update_entity i
             (\<lambda>e. e\<lparr>state := (state e)\<lparr>hash_sig :=
                       hash_data m' (data dest) (active_dims dest * 4)\<rparr>\<rparr>)
             (s\<lparr>mem := m'\<rparr>))"

text \<open>
  One round of the loop over the thoughts, for the entity in slot \<open>i\<close> and the thought
  \<open>t\<close>; \<open>sim\<close> is the revision's \<open>compute_similarity\<close>.
\<close>

definition resonate_step ::
    "fpu \<Rightarrow> ((u32 \<Rightarrow> u8) \<Rightarrow> HyperVector \<Rightarrow> HyperVector \<Rightarrow> f32) \<Rightarrow> nat \<Rightarrow> u32 \<Rightarrow> kstate \<Rightarrow> kstate" where
  "resonate_step fp sim i t s =
     (let similarity = sim (mem s) (state (entity_pool s i)) (thought_space s (unat t)) in
      if fgt similarity f_0_6
      then merge_hyper_vectors fp i (thought_space s (unat t))
             (update_entity i
                (\<lambda>e. e\<lparr>confidence := fadd fp (confidence e) (fmul fp f_0_05 similarity),
                        resource_allocation := fadd fp (resource_allocation e) f_0_1,
                        fitness_score := fitness_score e + 2\<rparr>) s)
      else s)"

lemma resonate_step_thought_count [simp]:
  "thought_count (resonate_step fp sim i t s) = thought_count s"
  by (simp add: resonate_step_def merge_hyper_vectors_def update_entity_def Let_def)

function resonate_loop ::
    "fpu \<Rightarrow> ((u32 \<Rightarrow> u8) \<Rightarrow> HyperVector \<Rightarrow> HyperVector \<Rightarrow> f32) \<Rightarrow> nat \<Rightarrow> u32 \<Rightarrow> kstate \<Rightarrow> kstate" where
  "resonate_loop fp sim i t s =
     (if t < thought_count s then resonate_loop fp sim i (t + 1) (resonate_step fp sim i t s)
      else s)"
  by pat_completeness auto
termination
  by (relation "measure (\<lambda>(fp, sim, i, t, s). unat (thought_count s - t))")
     (auto simp: loop_measure_step)

declare resonate_loop.simps [simp del]

text \<open>The ring neighbours of slot \<open>i\<close> that are active.\<close>

definition neighbor_active :: "kstate \<Rightarrow> u32 \<Rightarrow> u32" where
  "neighbor_active s i =
     (let prev_idx = (if i = 0 then active_entity_count s - 1 else i - 1);
          next_idx = (if i = active_entity_count s - 1 then 0 else i + 1)
      in (if is_active (entity_pool s (unat prev_idx)) \<noteq> 0 then 1 else 0) +
         (if is_active (entity_pool s (unat next_idx)) \<noteq> 0 then 1 else 0))"

definition self_mod_trigger :: "Entity \<Rightarrow> bool" where
  "self_mod_trigger e =
     (fgt (confidence e) f_0_8 \<and> fitness_score e > 50 \<and> mutation_rate e > 100)"

text \<open>
  The address of \<open>entity_pool[i].is_active\<close>, for the array at \<open>base\<close>: \<open>sizeof(struct
  Entity) = 160\<close> and the flag at offset 40 on i386.
\<close>

definition is_active_address :: "u32 \<Rightarrow> nat \<Rightarrow> u32" where
  "is_active_address base i = base + 160 * word_of_nat i + 40"


section \<open>The kernel of \<open>holographic_kernel.c\<close>\<close>

text \<open>
  \<open>src/holographic_kernel.c\<close> is the kernel without the memory economy: a bump allocator
  over a 128 KB array, a \<open>kfree\<close> that does nothing, and vectors that are copied by
  structure assignment. Its functions carry the prefix \<open>hk_\<close> here. They work on the same
  record of globals, of which \<open>allocation_list\<close> and \<open>allocation_counter\<close> are not used;
  \<open>kernel_heap\<close> is the address of the array. The file calls \<open>sqrtf\<close> without defining
  it: it is the argument \<open>sq\<close>.
\<close>

definition HK_HEAP_SIZE :: u32 where
  "HK_HEAP_SIZE = 0x20000"

definition hk_kmalloc :: "u32 \<Rightarrow> kstate \<Rightarrow> u32 \<times> kstate" where
  "hk_kmalloc sz s =
     (if heap_offset s + sz \<ge> HK_HEAP_SIZE then (NULL, s)
      else (kernel_heap s + heap_offset s,
            s\<lparr>heap_offset := heap_offset s + ((sz + 7) AND NOT 7)\<rparr>))"

definition hk_create_hyper_vector :: "fpu \<Rightarrow> u8 list \<Rightarrow> kstate \<Rightarrow> HyperVector \<times> kstate" where
  "hk_create_hyper_vector fp input s =
     (let vec = zero_HyperVector\<lparr>capacity := INITIAL_DIMENSIONS\<rparr>;
          (p, s1) = hk_kmalloc (capacity vec * 4) s;
          vec = vec\<lparr>data := p, active_dims := 0, valid := 1\<rparr>
      in if data vec = NULL then (vec\<lparr>valid := 0\<rparr>, s1)
         else
           let m1 = memset (mem s1) (data vec) 0 (capacity vec * 4);
               seed = hash_bytes input;
               vec = vec\<lparr>hash_sig := seed\<rparr>;
               (vec, m2) = hv_fill fp vec 0 seed m1;
               vec = vec\<lparr>hash_sig := hash_data m2 (data vec) (active_dims vec * 4)\<rparr>
           in (vec, s1\<lparr>mem := m2\<rparr>))"

definition hk_destroy_hyper_vector :: "hv_loc \<Rightarrow> kstate \<Rightarrow> kstate" where
  "hk_destroy_hyper_vector loc s =
     (if data (get_hv loc s) \<noteq> NULL
      then set_hv loc ((get_hv loc s)\<lparr>data := NULL, valid := 0\<rparr>) s
      else s)"

definition hk_compute_similarity ::
    "fpu \<Rightarrow> (f32 \<Rightarrow> f32) \<Rightarrow> (u32 \<Rightarrow> u8) \<Rightarrow> HyperVector \<Rightarrow> HyperVector \<Rightarrow> f32" where
  "hk_compute_similarity fp sq m a b =
     (if valid a = 0 \<or> valid b = 0 \<or> data a = NULL \<or> data b = NULL then f_0_0
      else
        let min_dims = (if active_dims a < active_dims b then active_dims a else active_dims b)
        in if min_dims = 0 then f_0_0
           else
             (case sim_loop fp m (data a) (data b) min_dims 0 (f_0_0, f_0_0, f_0_0) of
                (dot, mag_a, mag_b) \<Rightarrow>
                  let mag_a = (if fgt mag_a f_0_0 then sq mag_a else f_1_0);
                      mag_b = (if fgt mag_b f_0_0 then sq mag_b else f_1_0)
                  in if fgt (fmul fp mag_a mag_b) f_0_0
                     then fdiv fp dot (fmul fp mag_a mag_b) else f_0_0))"

function hk_coherence_loop ::
    "fpu \<Rightarrow> (f32 \<Rightarrow> f32) \<Rightarrow> HyperVector \<Rightarrow> kstate \<Rightarrow> u32 \<Rightarrow> f32 \<Rightarrow> f32" where
  "hk_coherence_loop fp sq thought s i coherence =
     (if i < thought_count s
      then hk_coherence_loop fp sq thought s (i + 1)
             (fadd fp coherence
                (hk_compute_similarity fp sq (mem s) thought (thought_space s (unat i))))
      else coherence)"
  by pat_completeness auto
termination
  by (relation "measure (\<lambda>(fp, sq, thought, s, i, acc). unat (thought_count s - i))")
     (auto simp: loop_measure_step)

declare hk_coherence_loop.simps [simp del]

definition hk_compute_coherence :: "fpu \<Rightarrow> (f32 \<Rightarrow> f32) \<Rightarrow> HyperVector \<Rightarrow> kstate \<Rightarrow> f32" where
  "hk_compute_coherence fp sq thought s =
     (if thought_count s = 0 then f_1_0
      else fdiv fp (hk_coherence_loop fp sq thought s 0 f_0_0) (u2f fp (thought_count s)))"

definition hk_broadcast_thought ::
    "fpu \<Rightarrow> (f32 \<Rightarrow> f32) \<Rightarrow> HyperVector \<Rightarrow> kstate \<Rightarrow> kstate" where
  "hk_broadcast_thought fp sq thought s =
     (if valid thought = 0 then s
      else
        let s2 = (if thought_count s \<ge> word_of_nat MAX_THOUGHTS
                  then let s1 = hk_destroy_hyper_vector (Thought 0) s
                       in s1\<lparr>thought_space := shift_thoughts (thought_space s1),
                             thought_count := word_of_nat (MAX_THOUGHTS - 1)\<rparr>
                  else s);
            s4 = s2\<lparr>thought_space := (thought_space s2)(unat (thought_count s2) := thought),
                    thought_count := thought_count s2 + 1\<rparr>;
            coherence = hk_compute_coherence fp sq thought s4
        in s4\<lparr>global_coherence :=
                 fdiv fp (fadd fp (fmul fp (global_coherence s4) f_9_0) coherence) f_10_0\<rparr>)"

definition hk_encode_holographic_memory :: "HyperVector \<Rightarrow> HyperVector \<Rightarrow> kstate \<Rightarrow> kstate" where
  "hk_encode_holographic_memory input output s =
     (let s3 = (if memory_count s \<ge> word_of_nat MAX_MEMORY_ENTRIES
                then let s1 = hk_destroy_hyper_vector (MemoryInput 0) s;
                         s2 = hk_destroy_hyper_vector (MemoryOutput 0) s1
                     in s2\<lparr>memory_pool := shift_memory (memory_pool s2),
                           memory_count := word_of_nat (MAX_MEMORY_ENTRIES - 1)\<rparr>
                else s)
      in s3\<lparr>memory_pool := (memory_pool s3)(unat (memory_count s3) :=
                 \<lparr>input_pattern = input, output_pattern = output,
                  timestamp = global_timestamp s3, entry_valid = 1\<rparr>),
             global_timestamp := global_timestamp s3 + 1,
             memory_count := memory_count s3 + 1\<rparr>)"

text \<open>
  \<open>propose_kernel_patch\<close> builds the patch in a local variable; the model returns it
  beside the new state, so that its fields can be spoken about.
\<close>

definition hk_propose_kernel_patch ::
    "fpu \<Rightarrow> (f32 \<Rightarrow> f32) \<Rightarrow> HyperVector \<Rightarrow> HyperVector \<Rightarrow> u32 \<Rightarrow> kstate
     \<Rightarrow> KernelPatch \<times> kstate" where
  "hk_propose_kernel_patch fp sq old_pattern new_pattern addr s =
     (let patch = \<lparr>patch_pattern = old_pattern, replacement = new_pattern, address = addr,
                   applied = 0\<rparr>;
          s1 = hk_encode_holographic_memory (patch_pattern patch) (replacement patch) s
      in (patch, hk_broadcast_thought fp sq (replacement patch) s1))"

definition hk_create_gene :: "string \<Rightarrow> HyperVector \<Rightarrow> kstate \<Rightarrow> u32 \<times> kstate" where
  "hk_create_gene nm pat s =
     (case hk_kmalloc sizeof_Gene s of
        (gene, s1) \<Rightarrow>
          if gene = NULL then (NULL, s1)
          else (gene, s1\<lparr>genes := (genes s1)(gene :=
                         \<lparr>pattern = pat, next_gene = NULL, fitness = 0, mutable = 1,
                          name = strncpy nm 15\<rparr>)\<rparr>))"

text \<open>\<open>spawn_entity\<close>: the slot of the new entity, or \<open>None\<close> for \<open>NULL\<close>.\<close>

definition hk_spawn_entity :: "fpu \<Rightarrow> kstate \<Rightarrow> nat option \<times> kstate" where
  "hk_spawn_entity fp s =
     (if active_entity_count s \<ge> word_of_nat MAX_ENTITIES then (None, s)
      else
        let i = unat (active_entity_count s);
            s1 = update_entity i
                   (\<lambda>e. e\<lparr>entity_id := active_entity_count s, age := 0,
                           interaction_count := 0, is_active := 1, fitness_score := 0,
                           spawn_count := 0, marked_for_gc := 0, is_mutant := 1,
                           gene_count := 0, genome := NULL, mutation_rate := 100\<rparr>) s
        in (case hk_create_hyper_vector fp (cstring ''TRAIT_EMERGENT'') s1 of
              (st, s2) \<Rightarrow>
                let s3 = update_entity i (\<lambda>e. e\<lparr>state := st\<rparr>) s2 in
                (case hk_create_gene ''emergent'' st s3 of
                   (emergent_gene, s4) \<Rightarrow>
                     let s5 = add_gene_to_entity i emergent_gene s4;
                         s6 = update_entity i
                           (\<lambda>e. e\<lparr>specialization_scores :=
                                     (\<lambda>d. if d < 8 then f_0_1 else specialization_scores e d),
                                   resource_allocation := f_1_0,
                                   confidence := f_0_5,
                                   task_alignment := f_0_0,
                                   domain_name := strncpy ''spawned'' 31\<rparr>) s5
                     in (Some i, s6\<lparr>active_entity_count := active_entity_count s6 + 1\<rparr>))))"

text \<open>
  The update cycle. \<open>next_active\<close>, \<open>next_state\<close> and \<open>next_domain\<close> are the local arrays
  of \<open>update_entities\<close>.
\<close>

record nexts =
  next_active :: "nat \<Rightarrow> u8"
  next_state :: "nat \<Rightarrow> HyperVector"
  next_domain :: "nat \<Rightarrow> string"
  next_task_vector :: "nat \<Rightarrow> HyperVector"
  next_path_id :: "nat \<Rightarrow> u32"
  next_task_alignment :: "nat \<Rightarrow> f32"

text \<open>
  The address of \<open>entity_pool[i].is_active\<close> in this file's layout of \<open>Entity\<close> (156
  bytes on i386, the flag at offset 12), for the array at \<open>base\<close>.
\<close>

definition hk_is_active_address :: "u32 \<Rightarrow> u32 \<Rightarrow> u32" where
  "hk_is_active_address base i = base + 156 * i + 12"

text \<open>
  The body of the first loop for the slot \<open>i\<close>, up to the self-modification trigger, and
  then the trigger; the latter also returns the patch that was proposed, if any.
\<close>

definition hk_entity_transition ::
    "fpu \<Rightarrow> (f32 \<Rightarrow> f32) \<Rightarrow> u32 \<Rightarrow> kstate \<times> nexts \<Rightarrow> kstate \<times> nexts" where
  "hk_entity_transition fp sq i sn =
     (case sn of (s, nx) \<Rightarrow>
        let k = unat i;
            entity = entity_pool s k;
            nx1 = nx\<lparr>next_active := (next_active nx)(k := is_active entity),
                     next_state := (next_state nx)(k := state entity),
                     next_domain := (next_domain nx)(k := strncpy (domain_name entity) 31)\<rparr>;
            s1 = update_entity k (\<lambda>e. e\<lparr>age := age e + 1\<rparr>) s;
            neighbors = neighbor_active s1 i;
            s2 = resonate_loop fp (hk_compute_similarity fp sq) k 0 s1
        in if is_active (entity_pool s2 k) = 0 \<and> neighbors > 0 then
             (case hk_create_hyper_vector fp (cstring ''TRAIT_ACTIVE'') s2 of
                (v, s3) \<Rightarrow>
                  let nx2 = nx1\<lparr>next_active := (next_active nx1)(k := 1),
                                next_state := (next_state nx1)(k := v),
                                next_domain := (next_domain nx1)(k := strncpy ''reactor'' 31)\<rparr>;
                      s4 = update_entity k
                             (\<lambda>e. e\<lparr>interaction_count := interaction_count e + 1,
                                     fitness_score := fitness_score e + 5\<rparr>) s3
                  in (hk_broadcast_thought fp sq v s4, nx2))
           else if is_active (entity_pool s2 k) \<noteq> 0 \<and> neighbors = 0 then
             (case hk_create_hyper_vector fp (cstring ''TRAIT_DORMANT'') s2 of
                (v, s3) \<Rightarrow>
                  let nx2 = nx1\<lparr>next_active := (next_active nx1)(k := 0),
                                next_state := (next_state nx1)(k := v),
                                next_domain := (next_domain nx1)(k := strncpy ''sleeper'' 31)\<rparr>
                  in (update_entity k
                        (\<lambda>e. e\<lparr>interaction_count := interaction_count e + 1\<rparr>) s3, nx2))
           else (s2, nx1))"

definition hk_self_modification ::
    "fpu \<Rightarrow> (f32 \<Rightarrow> f32) \<Rightarrow> u32 \<Rightarrow> u32 \<Rightarrow> kstate \<Rightarrow> KernelPatch option \<times> kstate" where
  "hk_self_modification fp sq base i s =
     (if self_mod_trigger (entity_pool s (unat i)) then
        (case hk_create_hyper_vector fp (cstring ''ENTITY_ACTIVE_FLAG'') s of
           (before_state, s1) \<Rightarrow>
             (case hk_create_hyper_vector fp (cstring ''ENTITY_DORMANT_FLAG'') s1 of
                (after_state, s2) \<Rightarrow>
                  (case hk_propose_kernel_patch fp sq before_state after_state
                          (hk_is_active_address base i) s2 of
                     (patch, s3) \<Rightarrow>
                       (Some patch,
                        update_entity (unat i)
                          (\<lambda>e. e\<lparr>confidence := f_0_5, fitness_score := 0\<rparr>) s3))))
      else (None, s))"

definition hk_update_entity ::
    "fpu \<Rightarrow> (f32 \<Rightarrow> f32) \<Rightarrow> u32 \<Rightarrow> u32 \<Rightarrow> kstate \<times> nexts \<Rightarrow> kstate \<times> nexts" where
  "hk_update_entity fp sq base i sn =
     (case hk_entity_transition fp sq i sn of
        (s1, nx1) \<Rightarrow> (snd (hk_self_modification fp sq base i s1), nx1))"


section \<open>The update cycle\<close>

text \<open>
  \<open>update_entities\<close> of the revision with the emergent memory economy. The static
  buffers \<open>next_active\<close>, \<open>next_state\<close>, \<open>next_domain\<close>, \<open>next_task_vector\<close>,
  \<open>next_path_id\<close> and \<open>next_task_alignment\<close> are the record \<open>nexts\<close>, passed beside the
  globals; \<open>base\<close> is the address of \<open>entity_pool\<close>. The loops over the entities use one
  unit of the bound \<open>n\<close> per iteration, and the collector that \<open>kfree\<close> may start is run
  with the same bound.
\<close>

definition get_system_memory_pressure :: "fpu \<Rightarrow> kstate \<Rightarrow> f32" where
  "get_system_memory_pressure fp s = fsub fp f_1_0 (free_fraction fp (heap_offset s))"

definition can_afford_vector_copy :: "fpu \<Rightarrow> u32 \<Rightarrow> kstate \<Rightarrow> bool" where
  "can_afford_vector_copy fp vector_count s =
     (let needed = vector_count * MAX_DIMENSIONS * 4;
          free_space = KERNEL_HEAP_SIZE - heap_offset s
      in flt (u2f fp needed) (fmul fp (u2f fp free_space) f_0_8))"

definition clear_nexts :: "nexts \<Rightarrow> nexts" where
  "clear_nexts nx =
     nx\<lparr>next_active := (\<lambda>i. 0),
        next_state := (\<lambda>i. (next_state nx i)\<lparr>valid := 0\<rparr>),
        next_domain := (\<lambda>i. []),
        next_task_vector := (\<lambda>i. (next_task_vector nx i)\<lparr>valid := 0\<rparr>),
        next_path_id := (\<lambda>i. 0),
        next_task_alignment := (\<lambda>i. f_0_0)\<rparr>"

text \<open>The shallow carry-forward of the two skip paths, with the increment of the age.\<close>

definition carry_forward :: "nat \<Rightarrow> kstate \<times> nexts \<Rightarrow> kstate \<times> nexts" where
  "carry_forward k sn =
     (case sn of (s, nx) \<Rightarrow>
        (update_entity k (\<lambda>e. e\<lparr>age := age e + 1\<rparr>) s,
         nx\<lparr>next_state := (next_state nx)(k := state (entity_pool s k)),
            next_task_vector := (next_task_vector nx)(k := task_vector (entity_pool s k))\<rparr>))"

text \<open>
  The activation and sleep rules for the slot \<open>k\<close>. The flag of the result says that the
  iteration goes on to the self-modification trigger; it is \<open>False\<close> after \<open>continue\<close>.
\<close>

definition neighbor_transition_with ::
    "(kstate \<Rightarrow> kstate option) \<Rightarrow> fpu \<Rightarrow> u32 \<Rightarrow> kstate \<times> nexts
     \<Rightarrow> (bool \<times> kstate \<times> nexts) option" where
  "neighbor_transition_with gc fp i sn =
     (case sn of (s, nx) \<Rightarrow>
        let k = unat i; neighbors = neighbor_active s i in
        if is_active (entity_pool s k) = 0 \<and> neighbors > 0 then
          (case create_hyper_vector fp (cstring ''TRAIT_ACTIVE'') s of
             (v, s1) \<Rightarrow>
               let nx1 = nx\<lparr>next_active := (next_active nx)(k := 1),
                            next_state := (next_state nx)(k := v)\<rparr>
               in if valid v = 0 then Some (False, s1, nx1)
                  else
                    let nx2 = nx1\<lparr>next_domain := (next_domain nx1)(k := strncpy ''reactor'' 31)\<rparr>;
                        s2 = update_entity k
                               (\<lambda>e. e\<lparr>interaction_count := interaction_count e + 1,
                                       fitness_score := fitness_score e + 5\<rparr>) s1
                    in (case broadcast_thought_with gc fp v s2 of
                          None \<Rightarrow> None
                        | Some s3 \<Rightarrow> Some (True, s3, nx2)))
        else if is_active (entity_pool s k) \<noteq> 0 \<and> neighbors = 0 then
          (case create_hyper_vector fp (cstring ''TRAIT_DORMANT'') s of
             (v, s1) \<Rightarrow>
               let nx1 = nx\<lparr>next_active := (next_active nx)(k := 0),
                            next_state := (next_state nx)(k := v)\<rparr>
               in if valid v = 0 then Some (False, s1, nx1)
                  else
                    Some (True,
                          update_entity k
                            (\<lambda>e. e\<lparr>interaction_count := interaction_count e + 1\<rparr>) s1,
                          nx1\<lparr>next_domain := (next_domain nx1)(k := strncpy ''sleeper'' 31)\<rparr>))
        else Some (True, s, nx))"

definition self_modification_with ::
    "(kstate \<Rightarrow> kstate option) \<Rightarrow> fpu \<Rightarrow> u32 \<Rightarrow> u32 \<Rightarrow> kstate \<Rightarrow> kstate option" where
  "self_modification_with gc fp base i s =
     (if self_mod_trigger (entity_pool s (unat i)) then
        (case create_hyper_vector fp (cstring ''ENTITY_ACTIVE_FLAG'') s of
           (before_state, s1) \<Rightarrow>
             (case create_hyper_vector fp (cstring ''ENTITY_DORMANT_FLAG'') s1 of
                (after_state, s2) \<Rightarrow>
                  if valid before_state \<noteq> 0 \<and> valid after_state \<noteq> 0 then
                    (case propose_kernel_patch_with gc fp before_state after_state
                            (is_active_address base (unat i)) s2 of
                       None \<Rightarrow> None
                     | Some s3 \<Rightarrow>
                         Some (update_entity (unat i)
                                 (\<lambda>e. e\<lparr>confidence := f_0_5, fitness_score := 0\<rparr>) s3))
                  else Some s2))
      else Some s)"

text \<open>The body of the first loop for the slot \<open>i\<close>.\<close>

definition entity_transition_with ::
    "(kstate \<Rightarrow> kstate option) \<Rightarrow> fpu \<Rightarrow> u32 \<Rightarrow> f32 \<Rightarrow> u32 \<Rightarrow> kstate \<times> nexts
     \<Rightarrow> (kstate \<times> nexts) option" where
  "entity_transition_with gc fp base pressure i sn =
     (case sn of (s, nx) \<Rightarrow>
        let k = unat i;
            entity = entity_pool s k;
            nx1 = nx\<lparr>next_active := (next_active nx)(k := is_active entity),
                     next_domain := (next_domain nx)(k := strncpy (domain_name entity) 31),
                     next_path_id := (next_path_id nx)(k := path_id entity),
                     next_task_alignment :=
                       (next_task_alignment nx)(k := task_alignment entity)\<rparr>
        in if fgt pressure f_0_8 \<and> fitness_score entity < 30 then Some (carry_forward k (s, nx1))
           else if \<not> can_afford_vector_copy fp 2 s then Some (carry_forward k (s, nx1))
           else
             (case copy_hyper_vector (state entity) s of
                (c1, s1) \<Rightarrow>
                  (case copy_hyper_vector (task_vector (entity_pool s1 k)) s1 of
                     (c2, s2) \<Rightarrow>
                       let nx2 = (if valid c1 = 0 \<or> valid c2 = 0
                                  then nx1\<lparr>next_state :=
                                             (next_state nx1)(k := state (entity_pool s2 k)),
                                           next_task_vector :=
                                             (next_task_vector nx1)
                                               (k := task_vector (entity_pool s2 k))\<rparr>
                                  else nx1\<lparr>next_state := (next_state nx1)(k := c1),
                                           next_task_vector := (next_task_vector nx1)(k := c2)\<rparr>);
                           s3 = update_entity k (\<lambda>e. e\<lparr>age := age e + 1\<rparr>) s2;
                           s4 = resonate_loop fp (compute_similarity fp) k 0 s3
                       in (case neighbor_transition_with gc fp i (s4, nx2) of
                             None \<Rightarrow> None
                           | Some (go_on, s5, nx3) \<Rightarrow>
                               if go_on
                               then (case self_modification_with gc fp base i s5 of
                                       None \<Rightarrow> None
                                     | Some s6 \<Rightarrow> Some (s6, nx3))
                               else Some (s5, nx3)))))"

fun update_loop_with ::
    "(kstate \<Rightarrow> kstate option) \<Rightarrow> fpu \<Rightarrow> u32 \<Rightarrow> f32 \<Rightarrow> nat \<Rightarrow> u32 \<Rightarrow> kstate \<times> nexts
     \<Rightarrow> (kstate \<times> nexts) option" where
  "update_loop_with gc fp base pressure 0 i sn =
     (if i < active_entity_count (fst sn) then None else Some sn)"
| "update_loop_with gc fp base pressure (Suc n) i sn =
     (if i < active_entity_count (fst sn)
      then (case entity_transition_with gc fp base pressure i sn of
              None \<Rightarrow> None
            | Some sn1 \<Rightarrow> update_loop_with gc fp base pressure n (i + 1) sn1)
      else Some sn)"

text \<open>The body of the second loop, which installs the next state of the slot \<open>i\<close>.\<close>

definition commit_entity_with ::
    "(kstate \<Rightarrow> kstate option) \<Rightarrow> fpu \<Rightarrow> nexts \<Rightarrow> u32 \<Rightarrow> kstate \<Rightarrow> kstate option" where
  "commit_entity_with gc fp nx i s =
     (let k = unat i;
          s1 = update_entity k (\<lambda>e. e\<lparr>is_active := next_active nx k\<rparr>) s
      in (case (if valid (next_state nx k) \<noteq> 0
                   \<and> data (next_state nx k) \<noteq> data (state (entity_pool s1 k))
                then destroy_hyper_vector_with gc fp (EntityState k) s1 else Some s1) of
            None \<Rightarrow> None
          | Some s2 \<Rightarrow>
              let s3 = update_entity k
                         (\<lambda>e. e\<lparr>state := next_state nx k,
                                 domain_name := strncpy (next_domain nx k) 31\<rparr>) s2
              in (case (if valid (next_task_vector nx k) \<noteq> 0
                           \<and> data (next_task_vector nx k)
                               \<noteq> data (task_vector (entity_pool s3 k))
                        then destroy_hyper_vector_with gc fp (EntityTask k) s3 else Some s3) of
                    None \<Rightarrow> None
                  | Some s4 \<Rightarrow>
                      Some (update_entity k
                              (\<lambda>e. e\<lparr>task_vector := next_task_vector nx k,
                                      path_id := next_path_id nx k,
                                      task_alignment := next_task_alignment nx k\<rparr>) s4))))"

fun commit_loop_with ::
    "(kstate \<Rightarrow> kstate option) \<Rightarrow> fpu \<Rightarrow> nexts \<Rightarrow> nat \<Rightarrow> u32 \<Rightarrow> kstate \<Rightarrow> kstate option" where
  "commit_loop_with gc fp nx 0 i s = (if i < active_entity_count s then None else Some s)"
| "commit_loop_with gc fp nx (Suc n) i s =
     (if i < active_entity_count s
      then (case commit_entity_with gc fp nx i s of
              None \<Rightarrow> None
            | Some s1 \<Rightarrow> commit_loop_with gc fp nx n (i + 1) s1)
      else Some s)"

definition update_entities ::
    "nat \<Rightarrow> fpu \<Rightarrow> u32 \<Rightarrow> kstate \<times> nexts \<Rightarrow> (kstate \<times> nexts) option" where
  "update_entities n fp base sn =
     (case sn of (s, nx) \<Rightarrow>
        let gc = perform_emergent_garbage_collection n fp;
            pressure = get_system_memory_pressure fp s
        in (case update_loop_with gc fp base pressure n 0 (s, clear_nexts nx) of
              None \<Rightarrow> None
            | Some (s1, nx1) \<Rightarrow>
                (case commit_loop_with gc fp nx1 n 0 s1 of
                   None \<Rightarrow> None
                 | Some s2 \<Rightarrow> Some (s2, nx1))))"


section \<open>Self-modification: applying a patch\<close>

text \<open>
  The copy loop of \<open>apply_kernel_patch\<close>, from index \<open>i\<close>: it stops at \<open>total_size\<close> and
  breaks at the byte size of the replacement's capacity.
\<close>

function patch_loop :: "(u32 \<Rightarrow> u8) \<Rightarrow> u32 \<Rightarrow> u32 \<Rightarrow> u32 \<Rightarrow> u32 \<Rightarrow> u32 \<Rightarrow> (u32 \<Rightarrow> u8)" where
  "patch_loop m target src i total_size cap_bytes =
     (if i < total_size then
        (if i < cap_bytes
         then patch_loop (m(target + i := m (src + i))) target src (i + 1) total_size cap_bytes
         else m)
      else m)"
  by pat_completeness auto
termination
  by (relation "measure (\<lambda>(m, target, src, i, total_size, cap_bytes). unat (total_size - i))")
     (auto simp: loop_measure_step)

declare patch_loop.simps [simp del]

definition apply_kernel_patch :: "KernelPatch \<Rightarrow> kstate \<Rightarrow> KernelPatch \<times> kstate" where
  "apply_kernel_patch patch s =
     (if applied patch \<noteq> 0 then (patch, s)
      else
        let total_size = active_dims (replacement patch) * 4 in
        if total_size > 1024 then (patch, s)
        else if address patch < kernel_heap s \<or>
                address patch \<ge> kernel_heap s + KERNEL_HEAP_SIZE then (patch, s)
        else (patch\<lparr>applied := 1\<rparr>,
              s\<lparr>mem := patch_loop (mem s) (address patch) (data (replacement patch)) 0
                            total_size (capacity (replacement patch) * 4)\<rparr>))"


text \<open>Example states: the zeroed globals with the heap at \<open>0xA0000\<close> and a given offset.\<close>

definition state_at_offset :: "u32 \<Rightarrow> kstate" where
  "state_at_offset off = (boot_state 0xA0000)\<lparr>heap_offset := off\<rparr>"

definition pool_example :: "nat list \<Rightarrow> pool_heap" where
  "pool_example fl = \<lparr>pkernel_heap = 0xA0000, pheap_offset = 0x100, free_metadata_list = fl,
     pallocation_list = [], pallocation_counter = 0, gc_metadata_count = 0\<rparr>"

definition patch_example :: "u32 \<Rightarrow> u32 \<Rightarrow> u8 \<Rightarrow> KernelPatch" where
  "patch_example ad addr app =
     \<lparr>patch_pattern = zero_HyperVector,
      replacement = \<lparr>data = 0xA0000, capacity = 512, active_dims = ad, hash_sig = 0, valid = 1\<rparr>,
      address = addr, applied = app\<rparr>"

definition state_with_bytes :: kstate where
  "state_with_bytes = (boot_state 0xA0000)\<lparr>mem := (\<lambda>a. if a < 0xA0008 then ucast a + 0x10 else 0)\<rparr>"

text \<open>
  A state under memory pressure: the arena is full, slot 0 is inactive and the active
  entity in slot 1 has the two genes at \<open>0xB0000\<close> and \<open>0xB0040\<close>.
\<close>

definition gene_example :: "u32 \<Rightarrow> u32 \<Rightarrow> Gene" where
  "gene_example d nxt =
     \<lparr>pattern = \<lparr>data = d, capacity = 512, active_dims = 0, hash_sig = 0, valid = 1\<rparr>,
      next_gene = nxt, fitness = 0, mutable = 1, name = ''base''\<rparr>"

definition gc_state :: kstate where
  "gc_state = (boot_state 0xA0000)
     \<lparr>heap_offset := 0xC0000, active_entity_count := 2, global_timestamp := 999,
      genes := (\<lambda>_. zero_Gene)(0xB0000 := gene_example 0xA1000 0xB0040,
                                  0xB0040 := gene_example 0xA2000 NULL),
      entity_pool := (\<lambda>_. zero_Entity)
        (1 := zero_Entity\<lparr>entity_id := 1, is_active := 1, genome := 0xB0000,
                           gene_count := 2, confidence := f_0_5\<rparr>)\<rparr>"

text \<open>
  A full thought buffer whose entries have lost their buffers, in a full arena, and a
  valid thought to broadcast.
\<close>

definition old_thought :: "nat \<Rightarrow> HyperVector" where
  "old_thought i = \<lparr>data = NULL, capacity = 512, active_dims = 0, hash_sig = word_of_nat i,
     valid = 1\<rparr>"

definition full_collective :: kstate where
  "full_collective = (boot_state 0xA0000)
     \<lparr>heap_offset := 0xC0000, thought_space := old_thought, thought_count := 64\<rparr>"

definition new_thought :: HyperVector where
  "new_thought = \<lparr>data = 0xA0000, capacity = 512, active_dims = 3, hash_sig = 0xABCD,
     valid = 1\<rparr>"

text \<open>
  Two entities in a full and in an empty arena, and cleared static buffers for
  \<open>update_entities\<close>.
\<close>

definition nexts_zero :: nexts where
  "nexts_zero = \<lparr>next_active = (\<lambda>i. 0), next_state = (\<lambda>i. zero_HyperVector),
     next_domain = (\<lambda>i. []), next_task_vector = (\<lambda>i. zero_HyperVector),
     next_path_id = (\<lambda>i. 0), next_task_alignment = (\<lambda>i. f_0_0)\<rparr>"




text \<open>A state whose entity pool is full.\<close>

definition crowded_state :: kstate where
  "crowded_state = (boot_state 0xA0000)\<lparr>active_entity_count := 32\<rparr>"

text \<open>
  One active entity that satisfies the self-modification trigger (\<open>0x3F59999A\<close> is
  \<open>0.85f\<close>), in an empty arena.
\<close>

definition scenario_c :: kstate where
  "scenario_c = (boot_state 0xA0000)
     \<lparr>active_entity_count := 1,
      entity_pool := (\<lambda>i. zero_Entity)
        (0 := zero_Entity\<lparr>is_active := 1, confidence := 0x3F59999A, fitness_score := 60,
                           mutation_rate := 150\<rparr>)\<rparr>"

text \<open>
  States for the collector in a full arena: slot 0 is inactive and slot 1 holds an active
  entity with id 1, confidence 0.5, age 17 and fitness 0, whose sacrifice threshold is
  \<open>(uint32_t)150.51 = 150\<close>; the draw is the global timestamp \<open>tick\<close>. In \<open>owner_state\<close>
  the draw is 149 and the entity owns the buffer of its state vector, tracked by one
  allocation record whose garbage flag is \<open>g\<close>.
\<close>

definition sacrifice_state :: "u32 \<Rightarrow> kstate" where
  "sacrifice_state tick = (boot_state 0xA0000)
     \<lparr>heap_offset := 0xC0000, active_entity_count := 2, global_timestamp := tick,
      entity_pool := (\<lambda>i. zero_Entity)
        (1 := zero_Entity\<lparr>entity_id := 1, is_active := 1, confidence := f_0_5,
                           age := 17\<rparr>)\<rparr>"

definition state_block :: "u8 \<Rightarrow> mem_block" where
  "state_block g = \<lparr>ptr = 0xA1000, block_size = 2048, allocation_id = 0, owner = NULL,
     is_garbage = g\<rparr>"

definition owner_state :: "u8 \<Rightarrow> kstate" where
  "owner_state g = (sacrifice_state 149)
     \<lparr>allocation_list := [state_block g],
      entity_pool := (entity_pool (sacrifice_state 149))
        (1 := (entity_pool (sacrifice_state 149) 1)
                \<lparr>state := \<lparr>data = 0xA1000, capacity = 512, active_dims = 0, hash_sig = 0,
                            valid = 1\<rparr>\<rparr>)\<rparr>"

section \<open>Verified properties\<close>

lemma kmalloc_fail:
  "KERNEL_HEAP_SIZE \<le> heap_offset s + sz \<Longrightarrow> kmalloc sz s = (NULL, s)"
  by (simp add: kmalloc.simps)

lemma kmalloc_ok:
  "\<not> KERNEL_HEAP_SIZE \<le> heap_offset s + sz \<Longrightarrow>
   kmalloc sz s =
     (let p = kernel_heap s + heap_offset s;
          r = kmalloc sizeof_mem_block (s\<lparr>heap_offset := heap_offset s + ((sz + 7) AND NOT 7)\<rparr>)
      in if fst r \<noteq> NULL
         then (p, (snd r)\<lparr>allocation_counter := allocation_counter (snd r) + 1,
                     allocation_list :=
                       \<lparr>ptr = p, block_size = sz,
                        allocation_id = allocation_counter (snd r),
                        owner = NULL, is_garbage = 0\<rparr> # allocation_list (snd r)\<rparr>)
         else (p, snd r))"
  by (subst kmalloc.simps) (simp add: Let_def split: prod.splits)

subsection \<open>The allocator's bounds check\<close>

lemma kmalloc_fail_no_wrap:
  assumes "unat (heap_offset s) + unat sz < 2 ^ 32"
    and "unat KERNEL_HEAP_SIZE \<le> unat (heap_offset s) + unat sz"
  shows "kmalloc sz s = (NULL, s)"
proof -
  from assms(1) have "unat (heap_offset s + sz) = unat (heap_offset s) + unat sz"
    by (simp add: unat_add_lem [THEN iffD1])
  with assms(2) have "KERNEL_HEAP_SIZE \<le> heap_offset s + sz"
    by (simp add: word_le_nat_alt)
  then show ?thesis by (rule kmalloc_fail)
qed

text \<open>
  C1. A request whose size added to the heap offset exceeds the arena must fail and leave
  \<open>heap_offset\<close> unchanged. The check \<open>heap_offset + size >= KERNEL_HEAP_SIZE\<close> is
  evaluated in 32 bit arithmetic: with \<open>heap_offset = 0xBFFE8\<close> a request of
  \<open>0xFFFFFFF8\<close> bytes, far more than the 768 KB arena holds, wraps around to \<open>0xBFFE0\<close>,
  passes the check, returns a non-null pointer and moves \<open>heap_offset\<close>.
\<close>

theorem kmalloc_wraparound_accepts_oversized_request:
  "unat KERNEL_HEAP_SIZE < unat (heap_offset (state_at_offset 0xBFFE8)) + unat (0xFFFFFFF8 :: u32) \<and>
   kmalloc 0xFFFFFFF8 (state_at_offset 0xBFFE8) =
     (0x15FFE8, (state_at_offset 0xBFFE8)\<lparr>heap_offset := 0xBFFF8, allocation_counter := 1,
        allocation_list := [\<lparr>ptr = 0x15FFE8, block_size = 0xFFFFFFF8, allocation_id = 0,
                             owner = NULL, is_garbage = 0\<rparr>]\<rparr>) \<and>
   (0x15FFE8 :: u32) \<noteq> NULL"
  by (simp add: state_at_offset_def boot_state_def kmalloc_ok kmalloc_fail
      KERNEL_HEAP_SIZE_def sizeof_mem_block_def Let_def NULL_def)

subsection \<open>Metadata records come from the dedicated pool\<close>

text \<open>
  C2. In the revision with the pre-allocated pool, every successful allocation takes its
  tracking record from the head of the free chain of \<open>metadata_pool\<close> and puts it at the
  head of \<open>allocation_list\<close>; the heap offset advances by the aligned request only, so
  no arena space (no recursive allocation) is spent on the record. With an empty free
  chain the allocation fails and changes nothing, whatever space the arena has left.
  The pool holds \<open>MAX_ALLOCATIONS\<close> records.
\<close>

theorem kmalloc_pool_metadata_from_pool:
  "(kmalloc_pool sz s = (p, s') \<and> p \<noteq> NULL \<longrightarrow>
      (\<exists>block. free_metadata_list s = block # free_metadata_list s' \<and>
         pallocation_list s' =
           (block, \<lparr>ptr = p, block_size = (sz + 3) AND NOT 3,
                     allocation_id = pallocation_counter s, owner = NULL, is_garbage = 0\<rparr>)
           # pallocation_list s \<and>
         p = pkernel_heap s + pheap_offset s \<and>
         pheap_offset s' = pheap_offset s + ((sz + 3) AND NOT 3) \<and>
         pkernel_heap s' = pkernel_heap s)) \<and>
   (free_metadata_list s = [] \<longrightarrow> kmalloc_pool sz s = (NULL, s)) \<and>
   length (free_metadata_list (initialize_metadata_pool s)) = MAX_ALLOCATIONS"
  by (auto simp: kmalloc_pool_def Let_def initialize_metadata_pool_def
      split: if_splits list.splits)

theorem kmalloc_pool_metadata_from_pool_witness:
  "fst (kmalloc_pool 6 (pool_example [7, 8])) = 0xA0100 \<and>
   free_metadata_list (snd (kmalloc_pool 6 (pool_example [7, 8]))) = [8] \<and>
   pallocation_list (snd (kmalloc_pool 6 (pool_example [7, 8]))) =
     [(7, \<lparr>ptr = 0xA0100, block_size = 8, allocation_id = 0, owner = NULL, is_garbage = 0\<rparr>)] \<and>
   pheap_offset (snd (kmalloc_pool 6 (pool_example [7, 8]))) = 0x108 \<and>
   pheap_offset (pool_example []) + 8 < KERNEL_HEAP_SIZE \<and>
   kmalloc_pool 6 (pool_example []) = (NULL, pool_example [])"
proof -
  have a: "kmalloc_pool 6 (pool_example [7, 8]) =
      (fst (kmalloc_pool 6 (pool_example [7, 8])), snd (kmalloc_pool 6 (pool_example [7, 8])))"
    by simp
  have p: "fst (kmalloc_pool 6 (pool_example [7, 8])) = 0xA0100"
    by (simp add: kmalloc_pool_def pool_example_def KERNEL_HEAP_SIZE_def Let_def)
  have f: "free_metadata_list (snd (kmalloc_pool 6 (pool_example [7, 8]))) = [8]"
    by (simp add: kmalloc_pool_def pool_example_def KERNEL_HEAP_SIZE_def Let_def)
  have e: "free_metadata_list (pool_example []) = []"
    by (simp add: pool_example_def)
  have r: "pheap_offset (pool_example []) + 8 < KERNEL_HEAP_SIZE"
    by (simp add: pool_example_def KERNEL_HEAP_SIZE_def)
  have nn: "fst (kmalloc_pool 6 (pool_example [7, 8])) \<noteq> NULL"
    unfolding p NULL_def by simp
  from kmalloc_pool_metadata_from_pool [of 6 "pool_example [7, 8]"
      "fst (kmalloc_pool 6 (pool_example [7, 8]))"
      "snd (kmalloc_pool 6 (pool_example [7, 8]))"] a nn
  obtain block where b: "free_metadata_list (pool_example [7, 8]) =
        block # free_metadata_list (snd (kmalloc_pool 6 (pool_example [7, 8])))"
     "pallocation_list (snd (kmalloc_pool 6 (pool_example [7, 8]))) =
           (block, \<lparr>ptr = fst (kmalloc_pool 6 (pool_example [7, 8])),
                     block_size = (6 + 3) AND NOT 3,
                     allocation_id = pallocation_counter (pool_example [7, 8]),
                     owner = NULL, is_garbage = 0\<rparr>)
           # pallocation_list (pool_example [7, 8])"
     "pheap_offset (snd (kmalloc_pool 6 (pool_example [7, 8]))) =
        pheap_offset (pool_example [7, 8]) + ((6 + 3) AND NOT 3)"
    by blast
  from b(1) have bl: "block = 7" by (simp add: pool_example_def f)
  have al: "((6::u32) + 3) AND NOT 3 = 8" by simp
  have l: "pallocation_list (snd (kmalloc_pool 6 (pool_example [7, 8]))) =
     [(7, \<lparr>ptr = 0xA0100, block_size = 8, allocation_id = 0, owner = NULL, is_garbage = 0\<rparr>)]"
    unfolding b(2) bl p al by (simp add: pool_example_def)
  have o: "pheap_offset (snd (kmalloc_pool 6 (pool_example [7, 8]))) = 0x108"
    unfolding b(3) al by (simp add: pool_example_def)
  from kmalloc_pool_metadata_from_pool [of 6 "pool_example []"] e
  have "kmalloc_pool 6 (pool_example []) = (NULL, pool_example [])" by blast
  then show ?thesis using p f r l o by simp
qed

subsection \<open>Determinism of vector creation\<close>

lemma store32_sync:
  "m1 (d1 + y) = m2 (d2 + y) \<Longrightarrow>
   store32 m1 (d1 + x) w (d1 + y) = store32 m2 (d2 + x) w (d2 + y)"
  by (simp add: store32_def add.assoc)

lemma hv_fill_done: "\<not> i < capacity vec \<Longrightarrow> hv_fill fp vec i seed m = (vec, m)"
  by (subst hv_fill.simps) simp

lemma hv_fill_hit:
  "i < capacity vec \<Longrightarrow> ((seed * 1103515245 + 12345) AND 0x7fffffff) mod 10 = 0 \<Longrightarrow>
   hv_fill fp vec i seed m =
     hv_fill fp (vec\<lparr>active_dims := active_dims vec + 1\<rparr>) (i + 1)
       ((seed * 1103515245 + 12345) AND 0x7fffffff)
       (store32 m (data vec + 4 * i)
          (fdiv fp (u2f fp (((seed * 1103515245 + 12345) AND 0x7fffffff) mod 2000 - 1000)) f_1000_0))"
  by (subst hv_fill.simps) (simp add: Let_def)

lemma hv_fill_miss:
  "i < capacity vec \<Longrightarrow> ((seed * 1103515245 + 12345) AND 0x7fffffff) mod 10 \<noteq> 0 \<Longrightarrow>
   hv_fill fp vec i seed m =
     hv_fill fp vec (i + 1) ((seed * 1103515245 + 12345) AND 0x7fffffff) m"
  by (subst hv_fill.simps) (simp add: Let_def)

lemma hv_fill_fields:
  "data (fst (hv_fill fp vec i seed m)) = data vec \<and>
   capacity (fst (hv_fill fp vec i seed m)) = capacity vec \<and>
   hash_sig (fst (hv_fill fp vec i seed m)) = hash_sig vec \<and>
   valid (fst (hv_fill fp vec i seed m)) = valid vec"
proof (induction fp vec i seed m rule: hv_fill.induct)
  case (1 fp vec i seed m)
  show ?case
  proof (cases "i < capacity vec")
    case False
    then show ?thesis by (simp add: hv_fill_done [OF False])
  next
    case True
    show ?thesis
    proof (cases "((seed * 1103515245 + 12345) AND 0x7fffffff) mod 10 = 0")
      case z: True
      from 1(1) [OF True refl z] show ?thesis
        by (simp only: hv_fill_hit [OF True z]) simp
    next
      case nz: False
      from 1(2) [OF True refl nz] show ?thesis
        by (simp only: hv_fill_miss [OF True nz])
    qed
  qed
qed


lemma hv_fill_sync:
  assumes "capacity v1 = capacity v2" and "active_dims v1 = active_dims v2"
    and "\<forall>y. P y \<longrightarrow> m1 (data v1 + y) = m2 (data v2 + y)"
  shows "active_dims (fst (hv_fill fp v1 i seed m1)) = active_dims (fst (hv_fill fp v2 i seed m2)) \<and>
     (\<forall>y. P y \<longrightarrow> snd (hv_fill fp v1 i seed m1) (data v1 + y) =
                     snd (hv_fill fp v2 i seed m2) (data v2 + y))"
  using assms
proof (induction fp v1 i seed m1 arbitrary: v2 m2 rule: hv_fill.induct)
  case (1 fp vec i seed m)
  show ?case
  proof (cases "i < capacity vec")
    case False
    moreover from False 1(3) have "\<not> i < capacity v2" by simp
    ultimately show ?thesis using 1(4,5) by (simp add: hv_fill_done)
  next
    case True
    from True 1(3) have T2: "i < capacity v2" by simp
    let ?seed = "(seed * 1103515245 + 12345) AND 0x7fffffff"
    show ?thesis
    proof (cases "?seed mod 10 = 0")
      case z: True
      let ?w = "fdiv fp (u2f fp (?seed mod 2000 - 1000)) f_1000_0"
      have "active_dims (fst (hv_fill fp (vec\<lparr>active_dims := active_dims vec + 1\<rparr>) (i + 1) ?seed
               (store32 m (data vec + 4 * i) ?w))) =
            active_dims (fst (hv_fill fp (v2\<lparr>active_dims := active_dims v2 + 1\<rparr>) (i + 1) ?seed
               (store32 m2 (data v2 + 4 * i) ?w))) \<and>
            (\<forall>y. P y \<longrightarrow> snd (hv_fill fp (vec\<lparr>active_dims := active_dims vec + 1\<rparr>) (i + 1) ?seed
               (store32 m (data vec + 4 * i) ?w)) (data (vec\<lparr>active_dims := active_dims vec + 1\<rparr>) + y) =
               snd (hv_fill fp (v2\<lparr>active_dims := active_dims v2 + 1\<rparr>) (i + 1) ?seed
               (store32 m2 (data v2 + 4 * i) ?w)) (data (v2\<lparr>active_dims := active_dims v2 + 1\<rparr>) + y))"
      proof (rule 1(1) [OF True refl z])
        show "capacity (vec\<lparr>active_dims := active_dims vec + 1\<rparr>) =
              capacity (v2\<lparr>active_dims := active_dims v2 + 1\<rparr>)"
          using 1(3) by simp
        show "active_dims (vec\<lparr>active_dims := active_dims vec + 1\<rparr>) =
              active_dims (v2\<lparr>active_dims := active_dims v2 + 1\<rparr>)"
          using 1(4) by simp
        show "\<forall>y. P y \<longrightarrow> store32 m (data vec + 4 * i) ?w
                  (data (vec\<lparr>active_dims := active_dims vec + 1\<rparr>) + y) =
                store32 m2 (data v2 + 4 * i) ?w
                  (data (v2\<lparr>active_dims := active_dims v2 + 1\<rparr>) + y)"
        proof (intro allI impI)
          fix y assume "P y"
          with 1(5) have "m (data vec + y) = m2 (data v2 + y)" by blast
          from store32_sync [of m "data vec" y m2 "data v2" "4 * i" ?w, OF this] show "store32 m (data vec + 4 * i) ?w
                  (data (vec\<lparr>active_dims := active_dims vec + 1\<rparr>) + y) =
                store32 m2 (data v2 + 4 * i) ?w
                  (data (v2\<lparr>active_dims := active_dims v2 + 1\<rparr>) + y)"
            by simp
        qed
      qed
      then show ?thesis
        by (simp add: hv_fill_hit [OF True z] hv_fill_hit [OF T2 z])
    next
      case nz: False
      have "active_dims (fst (hv_fill fp vec (i + 1) ?seed m)) =
            active_dims (fst (hv_fill fp v2 (i + 1) ?seed m2)) \<and>
            (\<forall>y. P y \<longrightarrow> snd (hv_fill fp vec (i + 1) ?seed m) (data vec + y) =
               snd (hv_fill fp v2 (i + 1) ?seed m2) (data v2 + y))"
        by (rule 1(2) [OF True refl nz]) (rule 1(3), rule 1(4), rule 1(5))
      then show ?thesis
        by (simp add: hv_fill_miss [OF True nz] hv_fill_miss [OF T2 nz])
    qed
  qed
qed


lemma memset_loop_keep: "m x = v \<Longrightarrow> memset_loop m p v i k x = v"
  by (induction k arbitrary: m i) simp_all

lemma memset_loop_hit:
  "i \<le> j \<Longrightarrow> j < i + k \<Longrightarrow> memset_loop m p v i k (p + word_of_nat j) = v"
proof (induction k arbitrary: m i)
  case 0
  then show ?case by simp
next
  case (Suc k)
  show ?case
  proof (cases "j = i")
    case True
    then show ?thesis by (simp add: memset_loop_keep)
  next
    case False
    with Suc.prems have "Suc i \<le> j" "j < Suc i + k" by simp_all
    then show ?thesis by (simp add: Suc.IH)
  qed
qed

lemma memset_hit: "unat y < unat n \<Longrightarrow> memset m p v n (p + y) = v"
  using memset_loop_hit [of 0 "unat y" "unat n" m p v] by (simp add: memset_def)

lemma kmalloc_mem: "mem (snd (kmalloc sz s)) = mem s"
proof (induction sz s rule: kmalloc.induct)
  case (1 sz s)
  show ?case
  proof (cases "KERNEL_HEAP_SIZE \<le> heap_offset s + sz")
    case True
    then show ?thesis by (simp add: kmalloc_fail)
  next
    case False
    from 1 [OF False refl refl] show ?thesis
      by (simp add: kmalloc_ok [OF False] Let_def)
  qed
qed

lemma word_succ_le: "unat ((x::u32) + 1) \<le> unat x + 1"
  by (simp add: unat_word_ariths)

lemma hv_fill_active_bound:
  "unat (active_dims (fst (hv_fill fp vec i seed m))) \<le>
     unat (active_dims vec) + unat (capacity vec - i)"
proof (induction fp vec i seed m rule: hv_fill.induct)
  case (1 fp vec i seed m)
  show ?case
  proof (cases "i < capacity vec")
    case False
    then show ?thesis by (simp add: hv_fill_done [OF False])
  next
    case True
    note st = loop_measure_step [OF True]
    show ?thesis
    proof (cases "((seed * 1103515245 + 12345) AND 0x7fffffff) mod 10 = 0")
      case z: True
      from 1(1) [OF True refl z] st word_succ_le [of "active_dims vec"] show ?thesis
        by (simp add: hv_fill_hit [OF True z])
    next
      case nz: False
      from 1(2) [OF True refl nz] st show ?thesis
        by (simp add: hv_fill_miss [OF True nz])
    qed
  qed
qed


definition hv_seeded :: "u32 \<Rightarrow> u8 list \<Rightarrow> HyperVector" where
  "hv_seeded p input = \<lparr>data = p, capacity = 512, active_dims = 0,
     hash_sig = hash_bytes input, valid = 0\<rparr>"

lemma create_hyper_vector_fail:
  "fst (kmalloc 2048 s) = NULL \<Longrightarrow>
   valid (fst (create_hyper_vector fp input s)) = 0"
  by (auto simp: create_hyper_vector_def Let_def INITIAL_DIMENSIONS_def zero_HyperVector_def
      split: prod.splits)

lemma create_hyper_vector_ok:
  assumes "fst (kmalloc 2048 s) \<noteq> NULL"
  shows "create_hyper_vector fp input s =
    (let p = fst (kmalloc 2048 s);
         r = hv_fill fp (hv_seeded p input) 0 (hash_bytes input) (memset (mem s) p 0 2048)
     in ((fst r)\<lparr>hash_sig := hash_data (snd r) p (active_dims (fst r) * 4), valid := 1\<rparr>,
         (snd (kmalloc 2048 s))\<lparr>mem := snd r\<rparr>))"
proof -
  have m: "mem (snd (kmalloc 2048 s)) = mem s" by (rule kmalloc_mem)
  obtain p s1 where k: "kmalloc 2048 s = (p, s1)" by (cases "kmalloc 2048 s")
  with assms have pn: "p \<noteq> NULL" by simp
  from k m have m1: "mem s1 = mem s" by simp
  obtain v m2 where r: "hv_fill fp (hv_seeded p input) 0 (hash_bytes input) (memset (mem s) p 0 2048) = (v, m2)"
    by (cases "hv_fill fp (hv_seeded p input) 0 (hash_bytes input) (memset (mem s) p 0 2048)")
  from hv_fill_fields [of fp "hv_seeded p input" 0 "hash_bytes input" "memset (mem s) p 0 2048"] r
  have dv: "data v = p" by (simp add: hv_seeded_def)
  show ?thesis
    using pn r dv
    by (simp add: create_hyper_vector_def Let_def INITIAL_DIMENSIONS_def zero_HyperVector_def
        k m1 hv_seeded_def)
qed


lemma read_bytes_sync:
  assumes "\<forall>y. unat y < N \<longrightarrow> m1 (d1 + y) = m2 (d2 + y)" and "n \<le> N" and "N \<le> 2 ^ 32"
  shows "read_bytes m1 d1 n = read_bytes m2 d2 n"
proof -
  have "m1 (d1 + word_of_nat i) = m2 (d2 + word_of_nat i)" if "i < n" for i
  proof -
    from that assms(2,3) have "i < 2 ^ 32" by simp
    then have "unat (word_of_nat i :: u32) = i" by (simp add: unat_of_nat)
    with that assms(2) have "unat (word_of_nat i :: u32) < N" by simp
    with assms(1) show ?thesis by blast
  qed
  then show ?thesis by (simp add: read_bytes_def)
qed

lemma create_hyper_vector_ok_fields:
  assumes "fst (kmalloc 2048 s) \<noteq> NULL"
  shows "valid (fst (create_hyper_vector fp input s)) = 1"
    and "data (fst (create_hyper_vector fp input s)) = fst (kmalloc 2048 s)"
  using hv_fill_fields [of fp "hv_seeded (fst (kmalloc 2048 s)) input" 0 "hash_bytes input"
      "memset (mem s) (fst (kmalloc 2048 s)) 0 2048"]
  by (simp_all add: create_hyper_vector_ok [OF assms] Let_def hv_seeded_def)

text \<open>
  C5. Two calls of \<open>create_hyper_vector\<close> on the same input bytes, from any two states of
  the kernel and with both backing allocations successful (the result is \<open>valid\<close>), give
  buffers with the same \<open>INITIAL_DIMENSIONS * 4 = 2048\<close> bytes, the same \<open>active_dims\<close>
  and the same \<open>hash_sig\<close>.
\<close>

theorem create_hyper_vector_deterministic:
  assumes v1: "valid (fst (create_hyper_vector fp input s1)) \<noteq> 0"
    and v2: "valid (fst (create_hyper_vector fp input s2)) \<noteq> 0"
  shows "read_bytes (mem (snd (create_hyper_vector fp input s1)))
             (data (fst (create_hyper_vector fp input s1))) 2048 =
         read_bytes (mem (snd (create_hyper_vector fp input s2)))
             (data (fst (create_hyper_vector fp input s2))) 2048 \<and>
         active_dims (fst (create_hyper_vector fp input s1)) =
           active_dims (fst (create_hyper_vector fp input s2)) \<and>
         hash_sig (fst (create_hyper_vector fp input s1)) =
           hash_sig (fst (create_hyper_vector fp input s2)) \<and>
         capacity (fst (create_hyper_vector fp input s1)) = INITIAL_DIMENSIONS \<and>
         capacity (fst (create_hyper_vector fp input s2)) = INITIAL_DIMENSIONS"
proof -
  define p1 where "p1 = fst (kmalloc 2048 s1)"
  define p2 where "p2 = fst (kmalloc 2048 s2)"
  define r1 where "r1 = hv_fill fp (hv_seeded p1 input) 0 (hash_bytes input) (memset (mem s1) p1 0 2048)"
  define r2 where "r2 = hv_fill fp (hv_seeded p2 input) 0 (hash_bytes input) (memset (mem s2) p2 0 2048)"
  from v1 create_hyper_vector_fail [of s1 fp input] have n1: "fst (kmalloc 2048 s1) \<noteq> NULL" by auto
  from v2 create_hyper_vector_fail [of s2 fp input] have n2: "fst (kmalloc 2048 s2) \<noteq> NULL" by auto
  have c1: "create_hyper_vector fp input s1 =
      ((fst r1)\<lparr>hash_sig := hash_data (snd r1) p1 (active_dims (fst r1) * 4), valid := 1\<rparr>,
       (snd (kmalloc 2048 s1))\<lparr>mem := snd r1\<rparr>)"
    by (simp add: create_hyper_vector_ok [OF n1] Let_def r1_def p1_def)
  have c2: "create_hyper_vector fp input s2 =
      ((fst r2)\<lparr>hash_sig := hash_data (snd r2) p2 (active_dims (fst r2) * 4), valid := 1\<rparr>,
       (snd (kmalloc 2048 s2))\<lparr>mem := snd r2\<rparr>)"
    by (simp add: create_hyper_vector_ok [OF n2] Let_def r2_def p2_def)
  have f1: "data (fst r1) = p1" "capacity (fst r1) = 512"
    using hv_fill_fields [of fp "hv_seeded p1 input" 0 "hash_bytes input" "memset (mem s1) p1 0 2048"]
    by (simp_all add: r1_def hv_seeded_def)
  have f2: "data (fst r2) = p2" "capacity (fst r2) = 512"
    using hv_fill_fields [of fp "hv_seeded p2 input" 0 "hash_bytes input" "memset (mem s2) p2 0 2048"]
    by (simp_all add: r2_def hv_seeded_def)
  have z: "\<forall>y. unat y < 2048 \<longrightarrow>
      memset (mem s1) p1 0 2048 (data (hv_seeded p1 input) + y) =
      memset (mem s2) p2 0 2048 (data (hv_seeded p2 input) + y)"
    by (simp add: hv_seeded_def memset_hit)
  from hv_fill_sync [of "hv_seeded p1 input" "hv_seeded p2 input" "\<lambda>y. unat y < 2048"
      "memset (mem s1) p1 0 2048" "memset (mem s2) p2 0 2048" fp 0 "hash_bytes input", OF _ _ z]
  have sy: "active_dims (fst r1) = active_dims (fst r2)"
      "\<forall>y. unat y < 2048 \<longrightarrow> snd r1 (p1 + y) = snd r2 (p2 + y)"
    by (simp_all add: r1_def r2_def hv_seeded_def)
  have b: "unat (active_dims (fst r1)) \<le> 512"
    using hv_fill_active_bound [of fp "hv_seeded p1 input" 0 "hash_bytes input" "memset (mem s1) p1 0 2048"]
    by (simp add: r1_def hv_seeded_def)
  then have b4: "unat (active_dims (fst r1) * 4) \<le> 2048"
    by (simp add: unat_word_ariths)
  have rb: "read_bytes (snd r1) p1 2048 = read_bytes (snd r2) p2 2048"
    by (rule read_bytes_sync [OF sy(2)]) simp_all
  have hb: "read_bytes (snd r1) p1 (unat (active_dims (fst r1) * 4)) =
            read_bytes (snd r2) p2 (unat (active_dims (fst r1) * 4))"
    by (rule read_bytes_sync [OF sy(2) b4]) simp
  show ?thesis
    using rb hb sy(1) f1 f2
    by (simp add: c1 c2 hash_data_def INITIAL_DIMENSIONS_def)
qed


definition state_other :: kstate where
  "state_other = (boot_state 0x200000)\<lparr>heap_offset := 0xBF7C0, mem := (\<lambda>_. 0xFF)\<rparr>"

theorem create_hyper_vector_deterministic_witness:
  "\<forall>fp. valid (fst (create_hyper_vector fp [0x41, 0] (state_at_offset 0xBF7E0))) \<noteq> 0 \<and>
     valid (fst (create_hyper_vector fp [0x41, 0] state_other)) \<noteq> 0 \<and>
     data (fst (create_hyper_vector fp [0x41, 0] (state_at_offset 0xBF7E0))) = 0x15F7E0 \<and>
     data (fst (create_hyper_vector fp [0x41, 0] state_other)) = 0x2BF7C0 \<and>
     read_bytes (mem (snd (create_hyper_vector fp [0x41, 0] (state_at_offset 0xBF7E0))))
        0x15F7E0 2048 =
     read_bytes (mem (snd (create_hyper_vector fp [0x41, 0] state_other))) 0x2BF7C0 2048 \<and>
     active_dims (fst (create_hyper_vector fp [0x41, 0] (state_at_offset 0xBF7E0))) =
       active_dims (fst (create_hyper_vector fp [0x41, 0] state_other)) \<and>
     hash_sig (fst (create_hyper_vector fp [0x41, 0] (state_at_offset 0xBF7E0))) =
       hash_sig (fst (create_hyper_vector fp [0x41, 0] state_other))"
proof
  fix fp
  have k1: "fst (kmalloc 2048 (state_at_offset 0xBF7E0)) = 0x15F7E0"
    by (simp add: state_at_offset_def boot_state_def kmalloc_ok kmalloc_fail
        KERNEL_HEAP_SIZE_def sizeof_mem_block_def Let_def NULL_def)
  have k2: "fst (kmalloc 2048 state_other) = 0x2BF7C0"
    by (simp add: state_other_def boot_state_def kmalloc_ok kmalloc_fail
        KERNEL_HEAP_SIZE_def sizeof_mem_block_def Let_def NULL_def)
  have n1: "fst (kmalloc 2048 (state_at_offset 0xBF7E0)) \<noteq> NULL"
    unfolding k1 by (simp add: NULL_def)
  have n2: "fst (kmalloc 2048 state_other) \<noteq> NULL"
    unfolding k2 by (simp add: NULL_def)
  note a = create_hyper_vector_ok_fields [OF n1, of fp "[0x41, 0]"]
  note b = create_hyper_vector_ok_fields [OF n2, of fp "[0x41, 0]"]
  have v1: "valid (fst (create_hyper_vector fp [0x41, 0] (state_at_offset 0xBF7E0))) \<noteq> 0"
    unfolding a(1) by simp
  have v2: "valid (fst (create_hyper_vector fp [0x41, 0] state_other)) \<noteq> 0"
    unfolding b(1) by simp
  from create_hyper_vector_deterministic [OF v1 v2] v1 v2 a(2) b(2) k1 k2
  show "valid (fst (create_hyper_vector fp [0x41, 0] (state_at_offset 0xBF7E0))) \<noteq> 0 \<and>
     valid (fst (create_hyper_vector fp [0x41, 0] state_other)) \<noteq> 0 \<and>
     data (fst (create_hyper_vector fp [0x41, 0] (state_at_offset 0xBF7E0))) = 0x15F7E0 \<and>
     data (fst (create_hyper_vector fp [0x41, 0] state_other)) = 0x2BF7C0 \<and>
     read_bytes (mem (snd (create_hyper_vector fp [0x41, 0] (state_at_offset 0xBF7E0))))
        0x15F7E0 2048 =
     read_bytes (mem (snd (create_hyper_vector fp [0x41, 0] state_other))) 0x2BF7C0 2048 \<and>
     active_dims (fst (create_hyper_vector fp [0x41, 0] (state_at_offset 0xBF7E0))) =
       active_dims (fst (create_hyper_vector fp [0x41, 0] state_other)) \<and>
     hash_sig (fst (create_hyper_vector fp [0x41, 0] (state_at_offset 0xBF7E0))) =
       hash_sig (fst (create_hyper_vector fp [0x41, 0] state_other))"
    by simp
qed

subsection \<open>Patch application\<close>

lemma word_succ_le_iff: "(i::u32) < n \<Longrightarrow> (i + 1 \<le> j) = (i < j)"
proof -
  assume a: "i < n"
  then have "unat i < unat n" by (simp add: word_less_nat_alt)
  moreover have "unat n < 2 ^ 32" using unsigned_less [of n] by simp
  ultimately have "unat (i + 1) = unat i + 1" by (simp add: unat_add_lem [THEN iffD1])
  then show ?thesis by (auto simp: word_le_nat_alt word_less_nat_alt)
qed

lemma patch_loop_outside:
  "(\<forall>j. i \<le> j \<and> j < tot \<and> j < cap \<longrightarrow> x \<noteq> t + j) \<Longrightarrow>
   patch_loop m t src i tot cap x = m x"
proof (induction m t src i tot cap rule: patch_loop.induct)
  case (1 m t src i tot cap)
  show ?case
  proof (cases "i < tot \<and> i < cap")
    case False
    then show ?thesis by (subst patch_loop.simps) auto
  next
    case True
    then have it: "i < tot" and ic: "i < cap" by simp_all
    from 1(2) it ic have ne: "x \<noteq> t + i" by auto
    have "\<forall>j. i + 1 \<le> j \<and> j < tot \<and> j < cap \<longrightarrow> x \<noteq> t + j"
    proof (intro allI impI)
      fix j assume "i + 1 \<le> j \<and> j < tot \<and> j < cap"
      then have "i \<le> j \<and> j < tot \<and> j < cap"
        by (simp add: word_succ_le_iff [OF it] less_imp_le)
      with 1(2) show "x \<noteq> t + j" by blast
    qed
    note ih = 1(1) [OF it ic this]
    have "patch_loop m t src i tot cap x =
          patch_loop (m(t + i := m (src + i))) t src (i + 1) tot cap x"
      by (subst patch_loop.simps) (simp add: it ic)
    also have "\<dots> = (m(t + i := m (src + i))) x" by (rule ih)
    also have "\<dots> = m x" using ne by simp
    finally show ?thesis .
  qed
qed

lemma patch_loop_copy:
  "i \<le> k \<Longrightarrow> k < tot \<Longrightarrow> k < cap \<Longrightarrow>
   (\<forall>j. i \<le> j \<and> j < k \<longrightarrow> src + k \<noteq> t + j) \<Longrightarrow>
   patch_loop m t src i tot cap (t + k) = m (src + k)"
proof (induction m t src i tot cap rule: patch_loop.induct)
  case (1 m t src i tot cap)
  from 1(2,3,4) have it: "i < tot" and ic: "i < cap" by auto
  show ?case
  proof (cases "k = i")
    case True
    have "\<forall>j. i + 1 \<le> j \<and> j < tot \<and> j < cap \<longrightarrow> t + i \<noteq> t + j"
      by (auto simp: word_succ_le_iff [OF it])
    note o = patch_loop_outside [OF this]
    have "patch_loop m t src i tot cap (t + i) =
          patch_loop (m(t + i := m (src + i))) t src (i + 1) tot cap (t + i)"
      by (subst patch_loop.simps) (simp add: it ic)
    also have "\<dots> = (m(t + i := m (src + i))) (t + i)" by (rule o)
    also have "\<dots> = m (src + i)" by simp
    finally show ?thesis using True by simp
  next
    case False
    with 1(2) have ik: "i < k" by simp
    then have a: "i + 1 \<le> k" by (simp add: word_succ_le_iff [OF it])
    have b: "\<forall>j. i + 1 \<le> j \<and> j < k \<longrightarrow> src + k \<noteq> t + j"
    proof (intro allI impI)
      fix j assume "i + 1 \<le> j \<and> j < k"
      then have "i \<le> j \<and> j < k"
        by (simp add: word_succ_le_iff [OF it] less_imp_le)
      with 1(5) show "src + k \<noteq> t + j" by blast
    qed
    from 1(5) ik have ne: "src + k \<noteq> t + i" by auto
    note ih = 1(1) [OF it ic a 1(3) 1(4) b]
    have "patch_loop m t src i tot cap (t + k) =
          patch_loop (m(t + i := m (src + i))) t src (i + 1) tot cap (t + k)"
      by (subst patch_loop.simps) (simp add: it ic)
    also have "\<dots> = (m(t + i := m (src + i))) (src + k)" by (rule ih)
    also have "\<dots> = m (src + k)" using ne by simp
    finally show ?thesis .
  qed
qed


text \<open>
  What \<open>apply_kernel_patch\<close> does for every patch and state: an applied patch is left
  alone; a target address outside \<open>[kernel_heap, kernel_heap + KERNEL_HEAP_SIZE)\<close> is
  rejected with the patch and the whole state unchanged, and so is a payload of more than
  1024 bytes as long as \<open>active_dims * 4\<close> does not overflow 32 bits; a patch that passes
  the checks is marked applied, byte \<open>k\<close> of the target receives byte \<open>k\<close> of the
  replacement's buffer up to the byte size of its capacity (when the forward copy has not
  overwritten that source byte before), nothing outside the target bytes changes, and
  applying the result again changes nothing.
\<close>

lemma apply_kernel_patch_checked:
  "(applied patch \<noteq> 0 \<longrightarrow> apply_kernel_patch patch s = (patch, s)) \<and>
   (active_dims (replacement patch) < 2 ^ 30 \<and>
    1024 < unat (active_dims (replacement patch)) * 4 \<longrightarrow>
      apply_kernel_patch patch s = (patch, s)) \<and>
   (address patch < kernel_heap s \<or> kernel_heap s + KERNEL_HEAP_SIZE \<le> address patch \<longrightarrow>
      apply_kernel_patch patch s = (patch, s)) \<and>
   (applied patch = 0 \<and> active_dims (replacement patch) * 4 \<le> 1024 \<and>
    kernel_heap s \<le> address patch \<and> address patch < kernel_heap s + KERNEL_HEAP_SIZE \<longrightarrow>
      fst (apply_kernel_patch patch s) = patch\<lparr>applied := 1\<rparr> \<and>
      snd (apply_kernel_patch patch s) = s\<lparr>mem := mem (snd (apply_kernel_patch patch s))\<rparr> \<and>
      (\<forall>k. k < active_dims (replacement patch) * 4 \<and> k < capacity (replacement patch) * 4 \<and>
           (\<forall>j. j < k \<longrightarrow> data (replacement patch) + k \<noteq> address patch + j) \<longrightarrow>
           mem (snd (apply_kernel_patch patch s)) (address patch + k) =
           mem s (data (replacement patch) + k)) \<and>
      (\<forall>x. (\<forall>j. j < active_dims (replacement patch) * 4 \<longrightarrow> x \<noteq> address patch + j) \<longrightarrow>
           mem (snd (apply_kernel_patch patch s)) x = mem s x) \<and>
      apply_kernel_patch (fst (apply_kernel_patch patch s)) (snd (apply_kernel_patch patch s)) =
        apply_kernel_patch patch s)"
proof -
  let ?ad = "active_dims (replacement patch)"
  let ?cap = "capacity (replacement patch)"
  have 1: "applied patch \<noteq> 0 \<longrightarrow> apply_kernel_patch patch s = (patch, s)"
    by (simp add: apply_kernel_patch_def)
  have 2: "apply_kernel_patch patch s = (patch, s)"
    if h: "?ad < 2 ^ 30" "1024 < unat ?ad * 4"
  proof -
    from h(1) have "unat ?ad < 2 ^ 30" by (simp add: word_less_nat_alt)
    then have "unat (?ad * 4) = unat ?ad * 4" by (simp add: unat_word_ariths)
    with h(2) have "1024 < ?ad * 4" by (simp add: word_less_nat_alt)
    then show ?thesis by (simp add: apply_kernel_patch_def Let_def)
  qed
  have 3: "address patch < kernel_heap s \<or> kernel_heap s + KERNEL_HEAP_SIZE \<le> address patch \<longrightarrow>
      apply_kernel_patch patch s = (patch, s)"
    by (auto simp: apply_kernel_patch_def Let_def)
  have 4: "fst (apply_kernel_patch patch s) = patch\<lparr>applied := 1\<rparr> \<and>
      snd (apply_kernel_patch patch s) = s\<lparr>mem := mem (snd (apply_kernel_patch patch s))\<rparr> \<and>
      (\<forall>k. k < ?ad * 4 \<and> k < ?cap * 4 \<and>
           (\<forall>j. j < k \<longrightarrow> data (replacement patch) + k \<noteq> address patch + j) \<longrightarrow>
           mem (snd (apply_kernel_patch patch s)) (address patch + k) =
           mem s (data (replacement patch) + k)) \<and>
      (\<forall>x. (\<forall>j. j < ?ad * 4 \<longrightarrow> x \<noteq> address patch + j) \<longrightarrow>
           mem (snd (apply_kernel_patch patch s)) x = mem s x) \<and>
      apply_kernel_patch (fst (apply_kernel_patch patch s)) (snd (apply_kernel_patch patch s)) =
        apply_kernel_patch patch s"
    if h: "applied patch = 0" "?ad * 4 \<le> 1024"
      "kernel_heap s \<le> address patch" "address patch < kernel_heap s + KERNEL_HEAP_SIZE"
  proof -
    from h(2) have nb: "\<not> 1024 < ?ad * 4" by (simp add: not_less)
    have r: "apply_kernel_patch patch s =
       (patch\<lparr>applied := 1\<rparr>,
        s\<lparr>mem := patch_loop (mem s) (address patch) (data (replacement patch)) 0
                    (?ad * 4) (?cap * 4)\<rparr>)"
      using h(1,3,4) nb by (simp add: apply_kernel_patch_def Let_def not_less not_le)
    have cp: "patch_loop (mem s) (address patch) (data (replacement patch)) 0 (?ad * 4) (?cap * 4)
               (address patch + k) = mem s (data (replacement patch) + k)"
      if "k < ?ad * 4" "k < ?cap * 4"
         "\<forall>j. j < k \<longrightarrow> data (replacement patch) + k \<noteq> address patch + j" for k
    proof (rule patch_loop_copy)
      show "0 \<le> k" by simp
      show "k < ?ad * 4" by (rule that(1))
      show "k < ?cap * 4" by (rule that(2))
      show "\<forall>j. 0 \<le> j \<and> j < k \<longrightarrow> data (replacement patch) + k \<noteq> address patch + j"
        using that(3) by simp
    qed
    have out: "patch_loop (mem s) (address patch) (data (replacement patch)) 0 (?ad * 4) (?cap * 4) x
               = mem s x"
      if "\<forall>j. j < ?ad * 4 \<longrightarrow> x \<noteq> address patch + j" for x
      by (rule patch_loop_outside) (use that in simp)
    have idem: "apply_kernel_patch (patch\<lparr>applied := 1\<rparr>) t = (patch\<lparr>applied := 1\<rparr>, t)" for t
      by (simp add: apply_kernel_patch_def)
    show ?thesis
      unfolding r using cp out by (simp add: idem)
  qed
  from 1 2 3 4 show ?thesis by blast
qed

text \<open>
  C7. A patch whose replacement payload (\<open>active_dims \<times> 4\<close> bytes) exceeds 1024 bytes
  must be rejected with no write. The size test is made on \<open>total_size = active_dims *
  sizeof(float)\<close> in 32 bit arithmetic, which nothing bounds: for a replacement with
  \<open>active_dims = 0x40000001\<close>, a payload of 4294967300 bytes, the product wraps around to
  4, the test \<open>total_size > 1024\<close> passes, the first four bytes of the replacement's buffer
  are written to the target (here \<open>0xA0100\<close>, whose first byte changes from \<open>0\<close> to
  \<open>0x10\<close>) and the patch is marked applied.
\<close>

theorem apply_kernel_patch_payload_size_wraps:
  "1024 < unat (active_dims (replacement (patch_example 0x40000001 0xA0100 0))) * 4 \<and>
   fst (apply_kernel_patch (patch_example 0x40000001 0xA0100 0) state_with_bytes) =
     patch_example 0x40000001 0xA0100 1 \<and>
   mem state_with_bytes 0xA0100 = 0 \<and>
   mem (snd (apply_kernel_patch (patch_example 0x40000001 0xA0100 0) state_with_bytes)) 0xA0100
     = 0x10"
proof -
  let ?p = "patch_example 0x40000001 0xA0100 0"
  have kh: "kernel_heap state_with_bytes = 0xA0000"
    by (simp add: state_with_bytes_def boot_state_def)
  have pre: "applied ?p = 0 \<and> active_dims (replacement ?p) * 4 \<le> 1024 \<and>
      kernel_heap state_with_bytes \<le> address ?p \<and>
      address ?p < kernel_heap state_with_bytes + KERNEL_HEAP_SIZE"
    by (simp add: patch_example_def kh KERNEL_HEAP_SIZE_def)
  note ok = apply_kernel_patch_checked [of ?p state_with_bytes,
      THEN conjunct2, THEN conjunct2, THEN conjunct2, THEN mp, OF pre]
  have a: "1024 < unat (active_dims (replacement ?p)) * 4"
    by (simp add: patch_example_def)
  have b: "fst (apply_kernel_patch ?p state_with_bytes) = patch_example 0x40000001 0xA0100 1"
    using ok [THEN conjunct1] by (simp add: patch_example_def)
  have c: "mem state_with_bytes 0xA0100 = 0" by (simp add: state_with_bytes_def)
  have d: "mem (snd (apply_kernel_patch ?p state_with_bytes)) 0xA0100 = 0x10"
    using ok [THEN conjunct2, THEN conjunct2, THEN conjunct1, THEN spec, of 0]
    by (simp add: patch_example_def state_with_bytes_def)
  from a b c d show ?thesis by blast
qed


subsection \<open>Garbage collection\<close>

lemmas ieee_eval = ieee_def ieee_add_def ieee_sub_def ieee_mul_def ieee_div_def ieee_u2f_def
  ieee_f2u_def f_pack_def f_round_mag_def floor_log2_def ilog2.simps
  round_even_def f_snum_def f_num_def f_den_def f_sign_def f_expo_def f_mant_def f_is_inf_def
  f_is_nan_def f_qnan_def Let_def

lemmas f_consts = f_0_0_def f_0_05_def f_0_1_def f_0_2_def f_0_3_def f_0_4_def f_0_5_def
  f_0_6_def f_0_8_def f_1_0_def f_1_5_def f_9_0_def f_10_0_def f_1000_0_def f_10000_0_def
  f_1e_10_def

lemma create_hyper_vector_full:
  "KERNEL_HEAP_SIZE \<le> heap_offset s + 2048 \<Longrightarrow>
   create_hyper_vector fp inp s = (zero_HyperVector\<lparr>capacity := INITIAL_DIMENSIONS\<rparr>, s)"
  by (simp add: create_hyper_vector_def Let_def INITIAL_DIMENSIONS_def kmalloc_fail
      zero_HyperVector_def NULL_def)

lemma gc_body_full:
  "KERNEL_HEAP_SIZE \<le> heap_offset s + 2048 \<Longrightarrow> gc_body gc fp n s = gc_loop_with gc fp n 0 s"
  by (simp add: gc_body_def create_hyper_vector_full zero_HyperVector_def)

text \<open>
  C3. The weakest-gene path must leave an entity that it does not deactivate with at least
  one gene. In \<open>gc_state\<close> the arena is full, so every \<open>kfree\<close> of the collector starts
  a nested collection before \<open>gene_count\<close> is decremented: the nested pass still reads
  \<open>gene_count = 2\<close> and evicts the second gene. For every floating-point unit that finds
  the free fraction below 0.2 and does not sacrifice the entity, the pass returns with
  the entity still active, \<open>gene_count = 0\<close> and an empty genome.
\<close>

theorem gc_weakest_gene_eviction_empties_genome:
  assumes "flt (free_fraction fp 0xC0000) f_0_2"
    and "\<not> 999 < sacrifice_threshold fp f_0_5 0 0"
  shows "\<not> volunteers fp gc_state (entity_pool gc_state 1) \<and>
     is_active (entity_pool gc_state 1) = 1 \<and>
     gene_count (entity_pool gc_state 1) = 2 \<and>
     (case perform_emergent_garbage_collection 8 fp gc_state of
        None \<Rightarrow> False
      | Some s' \<Rightarrow> is_active (entity_pool s' 1) = 1 \<and> gene_count (entity_pool s' 1) = 0 \<and>
                   genome (entity_pool s' 1) = NULL)"
proof -
  have a: "\<not> volunteers fp gc_state (entity_pool gc_state 1) \<and>
     is_active (entity_pool gc_state 1) = 1 \<and> gene_count (entity_pool gc_state 1) = 2"
    using assms(2)
    by (simp add: volunteers_def random_roll_def gc_state_def boot_state_def zero_Entity_def)
  have b: "(case perform_emergent_garbage_collection 8 fp gc_state of
        None \<Rightarrow> False
      | Some s' \<Rightarrow> is_active (entity_pool s' 1) = 1 \<and> gene_count (entity_pool s' 1) = 0 \<and>
                   genome (entity_pool s' 1) = NULL)"
    using assms
    apply (simp add: numeral_nat gc_body_full)
    apply (simp add: gc_state_def boot_state_def gc_body_full KERNEL_HEAP_SIZE_def)
    apply (simp add: gc_entity_with_def zero_Entity_def volunteers_def random_roll_def
       update_entity_def destroy_hyper_vector_with_def kfree_with_def free_space_low_def
       NULL_def gene_example_def zero_HyperVector_def Let_def gc_body_full KERNEL_HEAP_SIZE_def)
    done
  from a b show ?thesis by simp
qed

theorem gc_weakest_gene_eviction_empties_genome_witness:
  "flt (free_fraction ieee 0xC0000) f_0_2 \<and>
   sacrifice_threshold ieee f_0_5 0 0 = 150 \<and>
   \<not> volunteers ieee gc_state (entity_pool gc_state 1) \<and>
   gene_count (entity_pool gc_state 1) = 2 \<and>
   (case perform_emergent_garbage_collection 8 ieee gc_state of
        None \<Rightarrow> False
      | Some s' \<Rightarrow> is_active (entity_pool s' 1) = 1 \<and> gene_count (entity_pool s' 1) = 0 \<and>
                   genome (entity_pool s' 1) = NULL)"
proof -
  have l: "flt (free_fraction ieee 0xC0000) f_0_2"
    by (simp add: free_fraction_def KERNEL_HEAP_SIZE_def flt_def f_key_def ieee_eval f_consts)
  have t: "sacrifice_threshold ieee f_0_5 0 0 = 150"
    by (simp add: sacrifice_threshold_def sacrifice_probability_def ieee_eval f_consts)
  then have t': "\<not> 999 < sacrifice_threshold ieee f_0_5 0 0" by simp
  from gc_weakest_gene_eviction_empties_genome [OF l t'] l t show ?thesis by simp
qed


subsection \<open>Broadcasting into a full buffer\<close>

lemma shift_fold:
  "fold (\<lambda>i t. t(i := t (i + 1))) [a..<b] ts =
     (\<lambda>i. if a \<le> i \<and> i < b then ts (i + 1) else ts i)"
proof (induction b)
  case 0
  show ?case by simp
next
  case (Suc b)
  show ?case
  proof (cases "a \<le> b")
    case True
    define g where "g = fold (\<lambda>i t. t(i := t (i + 1))) [a..<b] ts"
    have g: "g = (\<lambda>i. if a \<le> i \<and> i < b then ts (i + 1) else ts i)"
      unfolding g_def by (rule Suc.IH)
    have "fold (\<lambda>i t. t(i := t (i + 1))) [a..<Suc b] ts = g(b := g (b + 1))"
      using True by (simp add: g_def)
    also have "\<dots> = (\<lambda>i. if a \<le> i \<and> i < Suc b then ts (i + 1) else ts i)"
      unfolding g using True by (auto simp: fun_eq_iff)
    finally show ?thesis .
  next
    case False
    then show ?thesis by (auto simp: fun_eq_iff)
  qed
qed

lemma shift_thoughts_eq:
  "shift_thoughts ts = (\<lambda>i. if i < 63 then ts (i + 1) else ts i)"
  unfolding shift_thoughts_def MAX_THOUGHTS_def by (subst shift_fold) simp

lemma copy_hyper_vector_full:
  "KERNEL_HEAP_SIZE \<le> heap_offset s + capacity src * 4 \<Longrightarrow> valid src \<noteq> 0 \<Longrightarrow>
   data src \<noteq> NULL \<Longrightarrow>
   copy_hyper_vector src s =
     (zero_HyperVector\<lparr>capacity := capacity src, active_dims := active_dims src\<rparr>, s)"
  by (simp add: copy_hyper_vector_def Let_def kmalloc_fail zero_HyperVector_def)

text \<open>
  C6. A broadcast into a full buffer must evict the oldest entry, shift the rest and append
  a deep copy of the thought. \<open>broadcast_thought\<close> stores whatever \<open>copy_hyper_vector\<close>
  returns and sets its \<open>valid\<close> flag: in a full arena the copy fails, and the entry
  appended for the valid thought \<open>new_thought\<close> has no buffer and the hash 0, yet is marked
  valid. The length stays at \<open>MAX_THOUGHTS\<close> and the older entries move down by one.
\<close>

theorem broadcast_appends_invalid_copy:
  "thought_count full_collective = 64 \<and> valid new_thought = 1 \<and>
   (case broadcast_thought n fp new_thought full_collective of
      None \<Rightarrow> False
    | Some s' \<Rightarrow>
        thought_count s' = 64 \<and>
        thought_space s' 0 = thought_space full_collective 1 \<and>
        thought_space s' 62 = thought_space full_collective 63 \<and>
        thought_space s' 63 =
          \<lparr>data = NULL, capacity = 512, active_dims = 3, hash_sig = 0, valid = 1\<rparr> \<and>
        hash_sig (thought_space s' 63) \<noteq> hash_sig new_thought)"
proof -
  have c: "copy_hyper_vector new_thought
             (full_collective\<lparr>thought_space := shift_thoughts (thought_space full_collective),
                thought_count := 63\<rparr>) =
           (zero_HyperVector\<lparr>capacity := 512, active_dims := 3\<rparr>,
            full_collective\<lparr>thought_space := shift_thoughts (thought_space full_collective),
                thought_count := 63\<rparr>)"
    using copy_hyper_vector_full [of "full_collective\<lparr>thought_space :=
        shift_thoughts (thought_space full_collective), thought_count := 63\<rparr>" new_thought]
    by (simp add: full_collective_def new_thought_def KERNEL_HEAP_SIZE_def NULL_def)
  have d: "destroy_hyper_vector_with gc fp (Thought 0) full_collective = Some full_collective" for gc
    by (simp add: destroy_hyper_vector_with_def full_collective_def old_thought_def)
  show ?thesis
    apply (simp add: broadcast_thought_def broadcast_thought_with_def d MAX_THOUGHTS_def c)
    apply (simp add: full_collective_def new_thought_def shift_thoughts_eq old_thought_def
        zero_HyperVector_def Let_def)
    done
qed


subsection \<open>The frame of the update cycle\<close>

text \<open>
  The part of the state that \<open>update_entities\<close> must leave alone or change in one way
  only: the number of entities, their ids and their ages.
\<close>

definition frame_of :: "kstate \<Rightarrow> u32 \<times> (nat \<Rightarrow> u32) \<times> (nat \<Rightarrow> u32)" where
  "frame_of s = (active_entity_count s, (\<lambda>j. entity_id (entity_pool s j)), (\<lambda>j. age (entity_pool s j)))"

lemma frame_fields [simp]:
  "frame_of (s\<lparr>mem := a\<rparr>) = frame_of s"
  "frame_of (s\<lparr>heap_offset := b\<rparr>) = frame_of s"
  "frame_of (s\<lparr>allocation_list := c\<rparr>) = frame_of s"
  "frame_of (s\<lparr>allocation_counter := d\<rparr>) = frame_of s"
  "frame_of (s\<lparr>genes := e\<rparr>) = frame_of s"
  "frame_of (s\<lparr>memory_pool := f\<rparr>) = frame_of s"
  "frame_of (s\<lparr>memory_count := g\<rparr>) = frame_of s"
  "frame_of (s\<lparr>global_timestamp := h\<rparr>) = frame_of s"
  "frame_of (s\<lparr>thought_space := k\<rparr>) = frame_of s"
  "frame_of (s\<lparr>thought_count := l\<rparr>) = frame_of s"
  "frame_of (s\<lparr>global_coherence := m\<rparr>) = frame_of s"
  by (simp_all add: frame_of_def)

lemma frame_update_entity:
  "(\<And>e. entity_id (f e) = entity_id e) \<Longrightarrow> (\<And>e. age (f e) = age e) \<Longrightarrow>
   frame_of (update_entity i f s) = frame_of s"
  by (auto simp: frame_of_def update_entity_def fun_eq_iff)

lemma frame_kmalloc [simp]: "frame_of (snd (kmalloc sz s)) = frame_of s"
proof (induction sz s rule: kmalloc.induct)
  case (1 sz s)
  show ?case
  proof (cases "KERNEL_HEAP_SIZE \<le> heap_offset s + sz")
    case True
    then show ?thesis by (simp add: kmalloc_fail)
  next
    case False
    from 1 [OF False refl refl] show ?thesis
      by (simp add: kmalloc_ok [OF False] Let_def)
  qed
qed


lemma frame_copy [simp]: "frame_of (snd (copy_hyper_vector src s)) = frame_of s"
proof -
  obtain p s1 where k: "kmalloc (capacity src * 4) s = (p, s1)" by (cases "kmalloc (capacity src * 4) s")
  from frame_kmalloc [of "capacity src * 4" s] k have "frame_of s1 = frame_of s" by simp
  then show ?thesis
    by (simp add: copy_hyper_vector_def Let_def k zero_HyperVector_def split: prod.splits)
qed


lemma frame_copyD: "copy_hyper_vector src s = (v, s1) \<Longrightarrow> frame_of s1 = frame_of s"
  using frame_copy [of src s] by simp

lemma frame_kmallocD: "kmalloc sz s = (p, s1) \<Longrightarrow> frame_of s1 = frame_of s"
  using frame_kmalloc [of sz s] by simp















lemma frame_merge [simp]: "frame_of (merge_hyper_vectors fp i src s) = frame_of s"
  by (simp add: merge_hyper_vectors_def Let_def frame_update_entity)

lemma frame_resonate_step [simp]: "frame_of (resonate_step fp sim i t s) = frame_of s"
  by (simp add: resonate_step_def Let_def frame_update_entity)

lemma frame_resonate_loop [simp]: "frame_of (resonate_loop fp sim i t s) = frame_of s"
proof (induction fp sim i t s rule: resonate_loop.induct)
  case (1 fp sim i t s)
  show ?case
  proof (cases "t < thought_count s")
    case True
    from 1 [OF True] True show ?thesis by (subst resonate_loop.simps) simp
  next
    case False
    then show ?thesis by (subst resonate_loop.simps) simp
  qed
qed












text \<open>
  Two runs that return: in \<open>pressure_state\<close> the arena is full, slot 0 volunteers to
  skip and slot 1 is forced to; in \<open>calm_state\<close> the arena is empty and both slots take
  the normal path, with the shallow fallback because their state vectors are not valid.
\<close>

lemma resonate_loop_done:
  "\<not> t < thought_count s \<Longrightarrow> resonate_loop fp sim i t s = s"
  by (subst resonate_loop.simps) simp




lemma can_afford_when_empty: "heap_offset s = 0 \<Longrightarrow> can_afford_vector_copy ieee 2 s"
    by (simp add: can_afford_vector_copy_def MAX_DIMENSIONS_def
        KERNEL_HEAP_SIZE_def flt_def f_key_def ieee_eval f_consts)





subsection \<open>Spawning\<close>

lemma frame_add_gene [simp]: "frame_of (add_gene_to_entity i g s) = frame_of s"
  by (simp add: add_gene_to_entity_def frame_update_entity)

lemma frame_create_gene [simp]: "frame_of (snd (create_gene nm pat s)) = frame_of s"
  by (auto simp: create_gene_def split: prod.splits dest!: frame_kmallocD frame_copyD)

lemma frame_hk_kmalloc [simp]: "frame_of (snd (hk_kmalloc sz s)) = frame_of s"
  by (simp add: hk_kmalloc_def)

lemma frame_hk_create [simp]: "frame_of (snd (hk_create_hyper_vector fp input s)) = frame_of s"
proof -
  obtain p s1 where k: "hk_kmalloc (INITIAL_DIMENSIONS * 4) s = (p, s1)"
    by (cases "hk_kmalloc (INITIAL_DIMENSIONS * 4) s")
  from frame_hk_kmalloc [of "INITIAL_DIMENSIONS * 4" s] k have "frame_of s1 = frame_of s" by simp
  then show ?thesis
    by (simp add: hk_create_hyper_vector_def Let_def k zero_HyperVector_def split: prod.splits)
qed

lemma frame_hk_create_gene [simp]: "frame_of (snd (hk_create_gene nm pat s)) = frame_of s"
proof -
  obtain p s1 where k: "hk_kmalloc sizeof_Gene s = (p, s1)"
    by (cases "hk_kmalloc sizeof_Gene s")
  from frame_hk_kmalloc [of sizeof_Gene s] k have "frame_of s1 = frame_of s" by simp
  then show ?thesis by (simp add: hk_create_gene_def k)
qed

lemma frame_of_count: "frame_of s' = frame_of s \<Longrightarrow> active_entity_count s' = active_entity_count s"
  by (simp add: frame_of_def)

lemma frame_of_id:
  "frame_of s' = frame_of s \<Longrightarrow> entity_id (entity_pool s' j) = entity_id (entity_pool s j)"
  by (simp add: frame_of_def fun_eq_iff)

text \<open>The slot \<open>entity_pool[active_entity_count]\<close> after the first assignments of \<open>spawn_entity\<close>.\<close>

definition spawn_slot_init :: "kstate \<Rightarrow> kstate" where
  "spawn_slot_init s = update_entity (unat (active_entity_count s))
                   (\<lambda>e. e\<lparr>entity_id := active_entity_count s, age := 0,
                           interaction_count := 0, is_active := 1, fitness_score := 0,
                           spawn_count := 0, marked_for_gc := 0, is_mutant := 1,
                           gene_count := 0, genome := NULL, mutation_rate := 100\<rparr>) s"

lemma spawn_slot_init_facts:
  "active_entity_count (spawn_slot_init s) = active_entity_count s"
  "entity_id (entity_pool (spawn_slot_init s) (unat (active_entity_count s))) = active_entity_count s"
  by (simp_all add: spawn_slot_init_def update_entity_def)

text \<open>
  In \<open>src/holographic_kernel.c\<close>, where nothing halts and \<open>kmalloc\<close> does not call
  itself, a call with room in the pool returns the slot at the old \<open>active_entity_count\<close>,
  with that index as its id, and increments the count.
\<close>

lemma hk_spawn_entity_slot:
  assumes nf: "\<not> word_of_nat MAX_ENTITIES \<le> active_entity_count s"
  shows "fst (hk_spawn_entity fp s) = Some (unat (active_entity_count s)) \<and>
         entity_id (entity_pool (snd (hk_spawn_entity fp s)) (unat (active_entity_count s)))
           = active_entity_count s \<and>
         active_entity_count (snd (hk_spawn_entity fp s)) = active_entity_count s + 1"
proof -
  let ?i = "unat (active_entity_count s)"
  obtain st s2 where c: "hk_create_hyper_vector fp (cstring ''TRAIT_EMERGENT'') (spawn_slot_init s) = (st, s2)"
    by (cases "hk_create_hyper_vector fp (cstring ''TRAIT_EMERGENT'') (spawn_slot_init s)")
  let ?s3 = "update_entity ?i (\<lambda>e. e\<lparr>state := st\<rparr>) s2"
  obtain g s4 where cg: "hk_create_gene ''emergent'' st ?s3 = (g, s4)"
    by (cases "hk_create_gene ''emergent'' st ?s3")
  let ?s5 = "add_gene_to_entity ?i g s4"
  let ?s6 = "update_entity ?i
                                  (\<lambda>e. e\<lparr>specialization_scores :=
                                            (\<lambda>d. if d < 8 then f_0_1
                                                  else specialization_scores e d),
                                          resource_allocation := f_1_0,
                                          confidence := f_0_5,
                                          task_alignment := f_0_0,
                                          domain_name := strncpy ''spawned'' 31\<rparr>) ?s5"
  from nf c cg have r: "hk_spawn_entity fp s =
      (Some ?i, ?s6\<lparr>active_entity_count := active_entity_count ?s6 + 1\<rparr>)"
    by (simp add: hk_spawn_entity_def Let_def spawn_slot_init_def [symmetric])
  have "frame_of (snd (hk_create_hyper_vector fp (cstring ''TRAIT_EMERGENT'') (spawn_slot_init s)))
          = frame_of (spawn_slot_init s)" by (rule frame_hk_create)
  then have f2: "frame_of s2 = frame_of (spawn_slot_init s)" by (simp add: c)
  have "frame_of (snd (hk_create_gene ''emergent'' st ?s3)) = frame_of ?s3"
    by (rule frame_hk_create_gene)
  then have f4: "frame_of s4 = frame_of ?s3" by (simp add: cg)
  have f6: "frame_of ?s6 = frame_of (spawn_slot_init s)"
    by (simp add: frame_update_entity f4 f2)
  from frame_of_count [OF f6] frame_of_id [OF f6] spawn_slot_init_facts [of s]
  show ?thesis by (simp add: r)
qed

text \<open>
  In the revision with the memory economy \<open>kmalloc\<close> allocates the tracking record of
  every block with \<open>kmalloc\<close> itself, and that record's record, and so on until the arena
  has no room for another 24 bytes: a call either fails at once or leaves less than 24
  bytes free, so that no later request can succeed.
\<close>

lemma kmalloc_exhausts:
  "(sz + 7) AND NOT 7 = sz \<longrightarrow>
   (KERNEL_HEAP_SIZE \<le> heap_offset s + sz \<and> snd (kmalloc sz s) = s) \<or>
   (KERNEL_HEAP_SIZE \<le> heap_offset (snd (kmalloc sz s)) + 24 \<and>
    heap_offset (snd (kmalloc sz s)) < KERNEL_HEAP_SIZE)"
proof (induction sz s rule: kmalloc.induct)
  case (1 sz s)
  show ?case
  proof (intro impI)
    assume al: "(sz + 7) AND NOT 7 = sz"
    show "(KERNEL_HEAP_SIZE \<le> heap_offset s + sz \<and> snd (kmalloc sz s) = s) \<or>
       (KERNEL_HEAP_SIZE \<le> heap_offset (snd (kmalloc sz s)) + 24 \<and>
        heap_offset (snd (kmalloc sz s)) < KERNEL_HEAP_SIZE)"
    proof (cases "KERNEL_HEAP_SIZE \<le> heap_offset s + sz")
      case True
      then show ?thesis by (simp add: kmalloc_fail)
    next
      case False
      let ?s1 = "s\<lparr>heap_offset := heap_offset s + ((sz + 7) AND NOT 7)\<rparr>"
      have al24: "(sizeof_mem_block + 7) AND NOT 7 = sizeof_mem_block"
        by (simp add: sizeof_mem_block_def)
      from 1 [OF False refl refl] al24
      have ih: "(KERNEL_HEAP_SIZE \<le> heap_offset ?s1 + sizeof_mem_block \<and>
                 snd (kmalloc sizeof_mem_block ?s1) = ?s1) \<or>
                (KERNEL_HEAP_SIZE \<le> heap_offset (snd (kmalloc sizeof_mem_block ?s1)) + 24 \<and>
                 heap_offset (snd (kmalloc sizeof_mem_block ?s1)) < KERNEL_HEAP_SIZE)"
        by blast
      have off: "heap_offset (snd (kmalloc sz s)) = heap_offset (snd (kmalloc sizeof_mem_block ?s1))"
        by (simp add: kmalloc_ok [OF False] Let_def)
      from False al have lt: "heap_offset ?s1 < KERNEL_HEAP_SIZE" by (simp add: not_le)
      from ih show ?thesis
      proof
        assume a: "KERNEL_HEAP_SIZE \<le> heap_offset ?s1 + sizeof_mem_block \<and>
                 snd (kmalloc sizeof_mem_block ?s1) = ?s1"
        then have "heap_offset (snd (kmalloc sz s)) = heap_offset ?s1" by (simp add: off)
        with a lt show ?thesis by (simp add: sizeof_mem_block_def)
      next
        assume "KERNEL_HEAP_SIZE \<le> heap_offset (snd (kmalloc sizeof_mem_block ?s1)) + 24 \<and>
                 heap_offset (snd (kmalloc sizeof_mem_block ?s1)) < KERNEL_HEAP_SIZE"
        then show ?thesis by (simp add: off)
      qed
    qed
  qed
qed

lemma kmalloc_after_exhaustion:
  assumes a: "KERNEL_HEAP_SIZE \<le> heap_offset s + 24" and b: "heap_offset s < KERNEL_HEAP_SIZE"
    and c: "24 \<le> sz" "sz \<le> 2048"
  shows "kmalloc sz s = (NULL, s)"
proof -
  from b have ub: "unat (heap_offset s) < 786432"
    by (simp add: word_less_nat_alt KERNEL_HEAP_SIZE_def)
  then have "unat (heap_offset s + 24) = unat (heap_offset s) + 24"
    by (simp add: unat_add_lem [THEN iffD1])
  with a have lo: "786432 \<le> unat (heap_offset s) + 24"
    by (simp add: word_le_nat_alt KERNEL_HEAP_SIZE_def)
  from c have sz: "24 \<le> unat sz" "unat sz \<le> 2048" by (simp_all add: word_le_nat_alt)
  with ub have "unat (heap_offset s) + unat sz < 2 ^ 32" by simp
  moreover from lo sz have "unat KERNEL_HEAP_SIZE \<le> unat (heap_offset s) + unat sz"
    by (simp add: KERNEL_HEAP_SIZE_def)
  ultimately show ?thesis by (rule kmalloc_fail_no_wrap)
qed


lemma create_hyper_vector_exhausts:
  assumes v: "valid (fst (create_hyper_vector fp input s)) \<noteq> 0"
  shows "KERNEL_HEAP_SIZE \<le> heap_offset (snd (create_hyper_vector fp input s)) + 24 \<and>
         heap_offset (snd (create_hyper_vector fp input s)) < KERNEL_HEAP_SIZE"
proof -
  from v create_hyper_vector_fail [of s fp input] have nn: "fst (kmalloc 2048 s) \<noteq> NULL"
    by blast
  have ho: "heap_offset (snd (create_hyper_vector fp input s)) = heap_offset (snd (kmalloc 2048 s))"
    by (simp add: create_hyper_vector_ok [OF nn] Let_def)
  have "(2048 + 7) AND NOT 7 = (2048 :: u32)" by simp
  with kmalloc_exhausts [of 2048 s]
  have "(KERNEL_HEAP_SIZE \<le> heap_offset s + 2048 \<and> snd (kmalloc 2048 s) = s) \<or>
        (KERNEL_HEAP_SIZE \<le> heap_offset (snd (kmalloc 2048 s)) + 24 \<and>
         heap_offset (snd (kmalloc 2048 s)) < KERNEL_HEAP_SIZE)" by blast
  then show ?thesis
  proof
    assume "KERNEL_HEAP_SIZE \<le> heap_offset s + 2048 \<and> snd (kmalloc 2048 s) = s"
    then have "kmalloc 2048 s = (NULL, s)" by (simp add: kmalloc_fail)
    with nn show ?thesis by simp
  next
    assume "KERNEL_HEAP_SIZE \<le> heap_offset (snd (kmalloc 2048 s)) + 24 \<and>
         heap_offset (snd (kmalloc 2048 s)) < KERNEL_HEAP_SIZE"
    then show ?thesis by (simp add: ho)
  qed
qed

lemma spawn_entity_halts:
  assumes nf: "\<not> word_of_nat MAX_ENTITIES \<le> active_entity_count s"
  shows "spawn_entity fp s = None"
proof -
  let ?i = "unat (active_entity_count s)"
  obtain st s2 where c: "create_hyper_vector fp (cstring ''TRAIT_EMERGENT'') (spawn_slot_init s) = (st, s2)"
    by (cases "create_hyper_vector fp (cstring ''TRAIT_EMERGENT'') (spawn_slot_init s)")
  let ?s3 = "update_entity ?i (\<lambda>e. e\<lparr>state := st\<rparr>) s2"
  show ?thesis
  proof (cases "valid st = 0")
    case True
    with nf c show ?thesis
      by (simp add: spawn_entity_def Let_def spawn_slot_init_def [symmetric])
  next
    case False
    with create_hyper_vector_exhausts [of fp "cstring ''TRAIT_EMERGENT''" "spawn_slot_init s"] c
    have "KERNEL_HEAP_SIZE \<le> heap_offset s2 + 24 \<and> heap_offset s2 < KERNEL_HEAP_SIZE"
      by simp
    then have "KERNEL_HEAP_SIZE \<le> heap_offset ?s3 + 24" "heap_offset ?s3 < KERNEL_HEAP_SIZE"
      by (simp_all add: update_entity_def)
    then have "kmalloc sizeof_Gene ?s3 = (NULL, ?s3)"
      by (rule kmalloc_after_exhaustion) (simp_all add: sizeof_Gene_def)
    then have "create_gene ''emergent'' st ?s3 = (NULL, ?s3)"
      by (simp add: create_gene_def)
    with nf c False show ?thesis
      by (simp add: spawn_entity_def Let_def spawn_slot_init_def [symmetric])
  qed
qed

text \<open>
  C9. With \<open>active_entity_count \<ge> MAX_ENTITIES\<close> the call returns \<open>NULL\<close> and changes
  nothing. With room in the pool the call must return the slot at the old
  \<open>active_entity_count\<close>; in this revision it never returns: if the state vector is
  allocated, the arena is exhausted by the allocator's own records, the \<open>kmalloc\<close> of the
  gene fails, and both failures end in \<open>while(1)\<close>. This holds for every state and
  floating-point unit.
\<close>

theorem spawn_entity_full_or_halts:
  "(word_of_nat MAX_ENTITIES \<le> active_entity_count s \<longrightarrow> spawn_entity fp s = Some (None, s)) \<and>
   (active_entity_count s < word_of_nat MAX_ENTITIES \<longrightarrow> spawn_entity fp s = None)"
proof -
  have "spawn_entity fp s = None" if "active_entity_count s < word_of_nat MAX_ENTITIES"
    by (rule spawn_entity_halts) (use that in \<open>simp add: not_le\<close>)
  then show ?thesis by (simp add: spawn_entity_def)
qed

theorem spawn_entity_full_or_halts_witness:
  "active_entity_count crowded_state = 32 \<and>
   spawn_entity ieee crowded_state = Some (None, crowded_state) \<and>
   active_entity_count (boot_state 0xA0000) = 0 \<and>
   heap_offset (boot_state 0xA0000) = 0 \<and>
   spawn_entity ieee (boot_state 0xA0000) = None"
  using spawn_entity_full_or_halts [of crowded_state ieee]
    spawn_entity_full_or_halts [of "boot_state 0xA0000" ieee]
  by (simp add: crowded_state_def boot_state_def MAX_ENTITIES_def)

subsection \<open>The self-modification trigger\<close>

text \<open>Everything in the state but the allocator's variables and the byte memory.\<close>

definition beyond_heap where
  "beyond_heap s = (entity_pool s, active_entity_count s, genes s, memory_pool s, memory_count s,
     global_timestamp s, thought_space s, thought_count s, global_coherence s, kernel_heap s)"

lemma beyond_heap_fields [simp]:
  "beyond_heap (s\<lparr>mem := a\<rparr>) = beyond_heap s"
  "beyond_heap (s\<lparr>heap_offset := b\<rparr>) = beyond_heap s"
  "beyond_heap (s\<lparr>allocation_list := c\<rparr>) = beyond_heap s"
  "beyond_heap (s\<lparr>allocation_counter := d\<rparr>) = beyond_heap s"
  by (simp_all add: beyond_heap_def)

lemma beyond_heap_kmalloc [simp]: "beyond_heap (snd (kmalloc sz s)) = beyond_heap s"
proof (induction sz s rule: kmalloc.induct)
  case (1 sz s)
  show ?case
  proof (cases "KERNEL_HEAP_SIZE \<le> heap_offset s + sz")
    case True
    then show ?thesis by (simp add: kmalloc_fail)
  next
    case False
    from 1 [OF False refl refl] show ?thesis
      by (simp add: kmalloc_ok [OF False] Let_def)
  qed
qed

lemma beyond_heap_create [simp]:
  "beyond_heap (snd (create_hyper_vector fp input s)) = beyond_heap s"
proof -
  obtain p s1 where k: "kmalloc (INITIAL_DIMENSIONS * 4) s = (p, s1)"
    by (cases "kmalloc (INITIAL_DIMENSIONS * 4) s")
  from beyond_heap_kmalloc [of "INITIAL_DIMENSIONS * 4" s] k
  have "beyond_heap s1 = beyond_heap s" by simp
  then show ?thesis
    by (simp add: create_hyper_vector_def Let_def k zero_HyperVector_def split: prod.splits)
qed

lemma create_hyper_vector_after_exhaustion:
  assumes "KERNEL_HEAP_SIZE \<le> heap_offset s + 24" "heap_offset s < KERNEL_HEAP_SIZE"
  shows "valid (fst (create_hyper_vector fp input s)) = 0"
proof -
  from assms have "kmalloc 2048 s = (NULL, s)"
    by (rule kmalloc_after_exhaustion) simp_all
  then show ?thesis by (simp add: create_hyper_vector_fail)
qed

text \<open>
  C8. An entity that reaches the trigger with \<open>confidence > 0.8\<close>, \<open>fitness_score > 50\<close>
  and \<open>mutation_rate > 100\<close> must propose a patch and have its confidence reset to 0.5
  and its fitness to 0. In this revision the proposal is made only if \<open>before_state\<close> and
  \<open>after_state\<close> are both valid, and they never are: when the first is allocated, the
  allocator's own records exhaust the arena and the second fails. So for every state,
  entity, collector and floating-point unit the trigger block returns with the entity
  pool, the associative memory and the collective as they were: nothing is recorded or
  broadcast and the entity keeps its confidence and fitness.
\<close>

theorem self_modification_never_proposes:
  "\<exists>s'. self_modification_with gc fp base i s = Some s' \<and>
        entity_pool s' = entity_pool s \<and>
        memory_pool s' = memory_pool s \<and> memory_count s' = memory_count s \<and>
        thought_space s' = thought_space s \<and> thought_count s' = thought_count s \<and>
        active_entity_count s' = active_entity_count s"
proof (cases "self_mod_trigger (entity_pool s (unat i))")
  case False
  then show ?thesis by (simp add: self_modification_with_def)
next
  case True
  obtain b s1 where c1: "create_hyper_vector fp (cstring ''ENTITY_ACTIVE_FLAG'') s = (b, s1)"
    by (cases "create_hyper_vector fp (cstring ''ENTITY_ACTIVE_FLAG'') s")
  obtain a s2 where c2: "create_hyper_vector fp (cstring ''ENTITY_DORMANT_FLAG'') s1 = (a, s2)"
    by (cases "create_hyper_vector fp (cstring ''ENTITY_DORMANT_FLAG'') s1")
  have "beyond_heap (snd (create_hyper_vector fp (cstring ''ENTITY_ACTIVE_FLAG'') s)) = beyond_heap s"
    by (rule beyond_heap_create)
  then have b1: "beyond_heap s1 = beyond_heap s" by (simp add: c1)
  have "beyond_heap (snd (create_hyper_vector fp (cstring ''ENTITY_DORMANT_FLAG'') s1)) = beyond_heap s1"
    by (rule beyond_heap_create)
  then have b2: "beyond_heap s2 = beyond_heap s" by (simp add: c2 b1)
  have nv: "valid b = 0 \<or> valid a = 0"
  proof (cases "valid b = 0")
    case True
    then show ?thesis by simp
  next
    case False
    with create_hyper_vector_exhausts [of fp "cstring ''ENTITY_ACTIVE_FLAG''" s] c1
    have "KERNEL_HEAP_SIZE \<le> heap_offset s1 + 24" "heap_offset s1 < KERNEL_HEAP_SIZE"
      by simp_all
    from create_hyper_vector_after_exhaustion [OF this, of fp "cstring ''ENTITY_DORMANT_FLAG''"] c2
    show ?thesis by simp
  qed
  from True c1 c2 nv have "self_modification_with gc fp base i s = Some s2"
    by (auto simp: self_modification_with_def)
  with b2 show ?thesis by (simp add: beyond_heap_def)
qed

text \<open>
  Scenario C of the specification in an empty arena: one active entity with confidence
  0.85, fitness 60 and mutation rate 150. After a whole \<open>update_entities\<close> the entity has
  aged by one tick, no proposal is in the associative memory, and confidence and fitness
  are what they were.
\<close>

theorem self_modification_never_proposes_witness:
  "heap_offset scenario_c = 0 \<and>
   fgt (confidence (entity_pool scenario_c 0)) f_0_8 \<and>
   50 < fitness_score (entity_pool scenario_c 0) \<and>
   100 < mutation_rate (entity_pool scenario_c 0) \<and>
   (\<exists>s' nx'. update_entities 1 ieee 0x200000 (scenario_c, nexts_zero) = Some (s', nx') \<and>
      confidence (entity_pool s' 0) = 0x3F59999A \<and>
      fitness_score (entity_pool s' 0) = 60 \<and> age (entity_pool s' 0) = 1 \<and>
      memory_count s' = 0 \<and> thought_count s' = 0)"
proof -
  have a: "heap_offset scenario_c = 0 \<and>
   fgt (confidence (entity_pool scenario_c 0)) f_0_8 \<and>
   50 < fitness_score (entity_pool scenario_c 0) \<and>
   100 < mutation_rate (entity_pool scenario_c 0)"
    by (simp add: scenario_c_def boot_state_def zero_Entity_def fgt_def flt_def f_key_def
        f_is_nan_def f_consts)
  let ?gc = "perform_emergent_garbage_collection (Suc 0) ieee"
  have p: "get_system_memory_pressure ieee scenario_c = f_0_0"
    by (simp add: get_system_memory_pressure_def free_fraction_def scenario_c_def
        boot_state_def KERNEL_HEAP_SIZE_def ieee_eval f_consts)
  define s4 where "s4 = update_entity 0 (\<lambda>e. e\<lparr>age := age e + 1\<rparr>) scenario_c"
  define nx2 where "nx2 = (clear_nexts nexts_zero)
     \<lparr>next_active := (next_active (clear_nexts nexts_zero))(0 := 1),
      next_domain := (next_domain (clear_nexts nexts_zero))(0 := []),
      next_path_id := (next_path_id (clear_nexts nexts_zero))(0 := 0),
      next_task_alignment := (next_task_alignment (clear_nexts nexts_zero))(0 := f_0_0),
      next_state := (next_state (clear_nexts nexts_zero))(0 := zero_HyperVector),
      next_task_vector := (next_task_vector (clear_nexts nexts_zero))(0 := zero_HyperVector)\<rparr>"
  from self_modification_never_proposes [of ?gc ieee "0x200000" 0 s4]
  obtain s5 where
    m: "self_modification_with ?gc ieee 0x200000 0 s4 = Some s5" and
    e: "entity_pool s5 = entity_pool s4" "memory_count s5 = memory_count s4"
       "thought_count s5 = thought_count s4" "active_entity_count s5 = active_entity_count s4"
    by blast
  have t: "entity_transition_with ?gc ieee 0x200000 f_0_0 0 (scenario_c, clear_nexts nexts_zero)
           = Some (s5, nx2)"
    using m
    apply (simp add: entity_transition_with_def Let_def)
    apply (simp add: scenario_c_def boot_state_def zero_Entity_def
      can_afford_when_empty fgt_def flt_def f_key_def
      f_is_nan_def f_consts Let_def copy_hyper_vector_def zero_HyperVector_def
      resonate_loop_done neighbor_transition_with_def neighbor_active_def
      s4_def nx2_def strncpy_def update_entity_def)
    done
  have c: "active_entity_count scenario_c = 1" by (simp add: scenario_c_def)
  have c5: "active_entity_count s5 = 1" by (simp add: e s4_def update_entity_def c)
  have l1: "update_loop_with ?gc ieee 0x200000 f_0_0 (Suc 0) 0 (scenario_c, clear_nexts nexts_zero)
            = Some (s5, nx2)"
    by (simp add: c t c5)
  obtain s6 where ce: "commit_entity_with ?gc ieee nx2 0 s5 = Some s6"
    and c6: "active_entity_count s6 = 1"
    and f6: "confidence (entity_pool s6 0) = 0x3F59999A" "fitness_score (entity_pool s6 0) = 60"
       "age (entity_pool s6 0) = 1" "memory_count s6 = 0" "thought_count s6 = 0"
    by (simp add: commit_entity_with_def nx2_def clear_nexts_def nexts_zero_def
        zero_HyperVector_def update_entity_def Let_def e c5 s4_def scenario_c_def boot_state_def
        zero_Entity_def)
  have l2: "commit_loop_with ?gc ieee nx2 (Suc 0) 0 s5 = Some s6"
    by (simp add: c5 ce c6)
  have "update_entities (Suc 0) ieee 0x200000 (scenario_c, nexts_zero) = Some (s6, nx2)"
    by (simp add: update_entities_def p l1 l2 Let_def
        del: update_loop_with.simps commit_loop_with.simps)
  with f6 a show ?thesis by simp
qed

text \<open>
  In \<open>src/holographic_kernel.c\<close> the trigger is not guarded and \<open>kmalloc\<close> does not call
  itself. There the block does what the claim says, except that the replacement reaches
  the collective only if it could be allocated: the patch targets the entity's
  \<open>is_active\<close> flag, the pair is recorded in the associative memory (in slot 127 after an
  eviction when the memory is full), the replacement is appended to the collective when
  it is valid, and confidence and fitness are reset.
\<close>

lemma beyond_heap_hk_create [simp]:
  "beyond_heap (snd (hk_create_hyper_vector fp input s)) = beyond_heap s"
proof -
  obtain p s1 where k: "hk_kmalloc (INITIAL_DIMENSIONS * 4) s = (p, s1)"
    by (cases "hk_kmalloc (INITIAL_DIMENSIONS * 4) s")
  then have "beyond_heap s1 = beyond_heap s"
    by (auto simp: hk_kmalloc_def split: if_splits)
  then show ?thesis
    by (simp add: hk_create_hyper_vector_def Let_def k zero_HyperVector_def split: prod.splits)
qed

lemma hk_self_modification_proposes:
  fixes fp :: fpu and sq :: "f32 \<Rightarrow> f32" and base i :: u32 and s :: kstate
  assumes t: "self_mod_trigger (entity_pool s (unat i))"
  defines "b \<equiv> hk_create_hyper_vector fp (cstring ''ENTITY_ACTIVE_FLAG'') s"
  defines "a \<equiv> hk_create_hyper_vector fp (cstring ''ENTITY_DORMANT_FLAG'') (snd b)"
  defines "r \<equiv> hk_self_modification fp sq base i s"
  defines "k \<equiv> (if word_of_nat MAX_MEMORY_ENTRIES \<le> memory_count s then 127
                   else unat (memory_count s))"
  defines "j \<equiv> (if word_of_nat MAX_THOUGHTS \<le> thought_count s then 63
                   else unat (thought_count s))"
  shows "fst r = Some \<lparr>patch_pattern = fst b, replacement = fst a,
                        address = hk_is_active_address base i, applied = 0\<rparr>"
    and "confidence (entity_pool (snd r) (unat i)) = f_0_5"
    and "fitness_score (entity_pool (snd r) (unat i)) = 0"
    and "input_pattern (memory_pool (snd r) k) = fst b"
    and "output_pattern (memory_pool (snd r) k) = fst a"
    and "memory_count (snd r) = word_of_nat k + 1"
    and "valid (fst a) \<noteq> 0 \<Longrightarrow>
           thought_space (snd r) j = fst a \<and> thought_count (snd r) = word_of_nat j + 1"
    and "valid (fst a) = 0 \<Longrightarrow>
           thought_space (snd r) = thought_space s \<and> thought_count (snd r) = thought_count s"
proof -
  obtain vb s1 where c1: "hk_create_hyper_vector fp (cstring ''ENTITY_ACTIVE_FLAG'') s = (vb, s1)"
    by (cases "hk_create_hyper_vector fp (cstring ''ENTITY_ACTIVE_FLAG'') s")
  obtain va s2 where c2: "hk_create_hyper_vector fp (cstring ''ENTITY_DORMANT_FLAG'') s1 = (va, s2)"
    by (cases "hk_create_hyper_vector fp (cstring ''ENTITY_DORMANT_FLAG'') s1")
  have "beyond_heap (snd (hk_create_hyper_vector fp (cstring ''ENTITY_ACTIVE_FLAG'') s)) = beyond_heap s"
    by (rule beyond_heap_hk_create)
  then have b1: "beyond_heap s1 = beyond_heap s" by (simp add: c1)
  have "beyond_heap (snd (hk_create_hyper_vector fp (cstring ''ENTITY_DORMANT_FLAG'') s1)) = beyond_heap s1"
    by (rule beyond_heap_hk_create)
  then have "beyond_heap s2 = beyond_heap s" by (simp add: c2 b1)
  then have mc: "memory_count s2 = memory_count s" and tc: "thought_count s2 = thought_count s"
    and ts: "thought_space s2 = thought_space s"
    by (simp_all add: beyond_heap_def)
  have ab: "fst b = vb" "fst a = va" by (simp_all add: a_def b_def c1 c2)
  have r: "r = (case hk_propose_kernel_patch fp sq vb va (hk_is_active_address base i) s2 of
                 (patch, s3) \<Rightarrow> (Some patch,
                    update_entity (unat i) (\<lambda>e. e\<lparr>confidence := f_0_5, fitness_score := 0\<rparr>) s3))"
    using t by (simp add: r_def hk_self_modification_def c1 c2)
  show "fst r = Some \<lparr>patch_pattern = fst b, replacement = fst a,
                        address = hk_is_active_address base i, applied = 0\<rparr>"
    by (simp add: r ab hk_propose_kernel_patch_def Let_def)
  show "confidence (entity_pool (snd r) (unat i)) = f_0_5"
    by (simp add: r hk_propose_kernel_patch_def Let_def update_entity_def)
  show "fitness_score (entity_pool (snd r) (unat i)) = 0"
    by (simp add: r hk_propose_kernel_patch_def Let_def update_entity_def)
  have bc: "memory_pool (hk_broadcast_thought fp sq v u) = memory_pool u"
           "memory_count (hk_broadcast_thought fp sq v u) = memory_count u" for v u
    by (simp_all add: hk_broadcast_thought_def Let_def hk_destroy_hyper_vector_def)
  show "input_pattern (memory_pool (snd r) k) = fst b"
    by (simp add: r ab hk_propose_kernel_patch_def Let_def update_entity_def bc
        hk_encode_holographic_memory_def hk_destroy_hyper_vector_def mc k_def MAX_MEMORY_ENTRIES_def)
  show "output_pattern (memory_pool (snd r) k) = fst a"
    by (simp add: r ab hk_propose_kernel_patch_def Let_def update_entity_def bc
        hk_encode_holographic_memory_def hk_destroy_hyper_vector_def mc k_def MAX_MEMORY_ENTRIES_def)
  show "memory_count (snd r) = word_of_nat k + 1"
    by (simp add: r ab hk_propose_kernel_patch_def Let_def update_entity_def bc
        hk_encode_holographic_memory_def hk_destroy_hyper_vector_def mc k_def MAX_MEMORY_ENTRIES_def)
  have en: "thought_space (hk_encode_holographic_memory x y u) = thought_space u"
           "thought_count (hk_encode_holographic_memory x y u) = thought_count u" for x y u
    by (simp_all add: hk_encode_holographic_memory_def Let_def hk_destroy_hyper_vector_def)
  show "thought_space (snd r) j = fst a \<and> thought_count (snd r) = word_of_nat j + 1"
    if "valid (fst a) \<noteq> 0"
    using that
    by (simp add: r ab hk_propose_kernel_patch_def Let_def update_entity_def en ts tc
        hk_broadcast_thought_def hk_destroy_hyper_vector_def j_def MAX_THOUGHTS_def)
  show "thought_space (snd r) = thought_space s \<and> thought_count (snd r) = thought_count s"
    if "valid (fst a) = 0"
    using that
    by (simp add: r ab hk_propose_kernel_patch_def Let_def update_entity_def en ts tc
        hk_broadcast_thought_def)
qed

subsection \<open>The sacrifice decision\<close>

text \<open>What the collector reads to decide, and the entity pool it works on.\<close>

definition gc_view :: "kstate \<Rightarrow> u32 \<times> u32 \<times> (nat \<Rightarrow> Entity)" where
  "gc_view s = (active_entity_count s, global_timestamp s, entity_pool s)"

lemma gc_view_fields [simp]:
  "gc_view (s\<lparr>mem := a\<rparr>) = gc_view s"
  "gc_view (s\<lparr>heap_offset := b\<rparr>) = gc_view s"
  "gc_view (s\<lparr>allocation_list := c\<rparr>) = gc_view s"
  "gc_view (s\<lparr>allocation_counter := d\<rparr>) = gc_view s"
  "gc_view (s\<lparr>genes := e\<rparr>) = gc_view s"
  "gc_view (s\<lparr>memory_pool := f\<rparr>) = gc_view s"
  "gc_view (s\<lparr>memory_count := g\<rparr>) = gc_view s"
  "gc_view (s\<lparr>thought_space := k\<rparr>) = gc_view s"
  "gc_view (s\<lparr>thought_count := l\<rparr>) = gc_view s"
  "gc_view (s\<lparr>global_coherence := m\<rparr>) = gc_view s"
  by (simp_all add: gc_view_def)

lemma gc_view_kmalloc [simp]: "gc_view (snd (kmalloc sz s)) = gc_view s"
  using beyond_heap_kmalloc [of sz s] by (simp add: beyond_heap_def gc_view_def)

lemma gc_view_create: "create_hyper_vector fp input s = (v, s1) \<Longrightarrow> gc_view s1 = gc_view s"
  using beyond_heap_create [of fp input s] by (simp add: beyond_heap_def gc_view_def)

lemma gc_view_copy: "copy_hyper_vector src s = (v, s1) \<Longrightarrow> gc_view s1 = gc_view s"
proof -
  assume a: "copy_hyper_vector src s = (v, s1)"
  obtain p s0 where k: "kmalloc (capacity src * 4) s = (p, s0)" by (cases "kmalloc (capacity src * 4) s")
  from gc_view_kmalloc [of "capacity src * 4" s] k have "gc_view s0 = gc_view s" by simp
  with a show ?thesis
    by (auto simp: copy_hyper_vector_def Let_def k zero_HyperVector_def split: if_splits)
qed

text \<open>
  What relates the state before and after any part of a collection: the inputs of the
  sacrifice decision are unchanged; an entity changes its activity only by being
  sacrificed, which needs a draw below its threshold and leaves it without genes and
  buffers; buffers that are gone stay gone; and an inactive entity keeps its genome.
\<close>

definition gc_inv :: "fpu \<Rightarrow> kstate \<Rightarrow> kstate \<Rightarrow> bool" where
  "gc_inv fp s s' =
     (active_entity_count s' = active_entity_count s \<and>
      global_timestamp s' = global_timestamp s \<and>
      (\<forall>j. entity_id (entity_pool s' j) = entity_id (entity_pool s j) \<and>
           confidence (entity_pool s' j) = confidence (entity_pool s j) \<and>
           age (entity_pool s' j) = age (entity_pool s j) \<and>
           fitness_score (entity_pool s' j) = fitness_score (entity_pool s j) \<and>
           (is_active (entity_pool s' j) = is_active (entity_pool s j) \<or>
            volunteers fp s (entity_pool s j) \<and> is_active (entity_pool s' j) = 0 \<and>
            gene_count (entity_pool s' j) = 0 \<and> genome (entity_pool s' j) = NULL \<and>
            data (state (entity_pool s' j)) = NULL \<and>
            data (task_vector (entity_pool s' j)) = NULL) \<and>
           (data (state (entity_pool s j)) = NULL \<longrightarrow> data (state (entity_pool s' j)) = NULL) \<and>
           (data (task_vector (entity_pool s j)) = NULL \<longrightarrow>
              data (task_vector (entity_pool s' j)) = NULL) \<and>
           (is_active (entity_pool s j) = 0 \<longrightarrow>
              genome (entity_pool s' j) = genome (entity_pool s j) \<and>
              gene_count (entity_pool s' j) = gene_count (entity_pool s j))))"

lemma gc_inv_view: "gc_view s' = gc_view s \<Longrightarrow> gc_inv fp s s'"
  by (simp add: gc_inv_def gc_view_def)

lemma gc_inv_refl [simp]: "gc_inv fp s s"
  by (simp add: gc_inv_def)

lemma gc_inv_volunteers:
  "gc_inv fp s s' \<Longrightarrow> volunteers fp s' (entity_pool s' j) = volunteers fp s (entity_pool s j)"
  by (simp add: gc_inv_def volunteers_def random_roll_def)

lemma gc_inv_trans: "gc_inv fp a b \<Longrightarrow> gc_inv fp b c \<Longrightarrow> gc_inv fp a c"
proof -
  assume ab: "gc_inv fp a b" and bc: "gc_inv fp b c"
  have v: "volunteers fp b (entity_pool b j) = volunteers fp a (entity_pool a j)" for j
    by (rule gc_inv_volunteers [OF ab])
  show ?thesis
    unfolding gc_inv_def
  proof (intro conjI allI)
    fix j
    from ab bc show "active_entity_count c = active_entity_count a"
      "global_timestamp c = global_timestamp a" by (simp_all add: gc_inv_def)
    from ab bc show "entity_id (entity_pool c j) = entity_id (entity_pool a j)"
      "confidence (entity_pool c j) = confidence (entity_pool a j)"
      "age (entity_pool c j) = age (entity_pool a j)"
      "fitness_score (entity_pool c j) = fitness_score (entity_pool a j)"
      by (simp_all add: gc_inv_def)
    from ab have 1: "is_active (entity_pool b j) = is_active (entity_pool a j) \<or>
            volunteers fp a (entity_pool a j) \<and> is_active (entity_pool b j) = 0 \<and>
            gene_count (entity_pool b j) = 0 \<and> genome (entity_pool b j) = NULL \<and>
            data (state (entity_pool b j)) = NULL \<and>
            data (task_vector (entity_pool b j)) = NULL"
      by (simp add: gc_inv_def)
    from bc have 2: "is_active (entity_pool c j) = is_active (entity_pool b j) \<or>
            volunteers fp b (entity_pool b j) \<and> is_active (entity_pool c j) = 0 \<and>
            gene_count (entity_pool c j) = 0 \<and> genome (entity_pool c j) = NULL \<and>
            data (state (entity_pool c j)) = NULL \<and>
            data (task_vector (entity_pool c j)) = NULL"
      by (simp add: gc_inv_def)
    from bc have 3: "data (state (entity_pool b j)) = NULL \<longrightarrow> data (state (entity_pool c j)) = NULL"
      "data (task_vector (entity_pool b j)) = NULL \<longrightarrow> data (task_vector (entity_pool c j)) = NULL"
      "is_active (entity_pool b j) = 0 \<longrightarrow>
              genome (entity_pool c j) = genome (entity_pool b j) \<and>
              gene_count (entity_pool c j) = gene_count (entity_pool b j)"
      by (simp_all add: gc_inv_def)
    from 1 2 3 v [of j] show "is_active (entity_pool c j) = is_active (entity_pool a j) \<or>
            volunteers fp a (entity_pool a j) \<and> is_active (entity_pool c j) = 0 \<and>
            gene_count (entity_pool c j) = 0 \<and> genome (entity_pool c j) = NULL \<and>
            data (state (entity_pool c j)) = NULL \<and>
            data (task_vector (entity_pool c j)) = NULL"
      by auto
    from ab bc show "data (state (entity_pool a j)) = NULL \<longrightarrow> data (state (entity_pool c j)) = NULL"
      by (simp add: gc_inv_def)
    from ab bc show "data (task_vector (entity_pool a j)) = NULL \<longrightarrow>
              data (task_vector (entity_pool c j)) = NULL"
      by (simp add: gc_inv_def)
    from 1 have "is_active (entity_pool a j) = 0 \<longrightarrow> is_active (entity_pool b j) = 0" by auto
    with ab bc show "is_active (entity_pool a j) = 0 \<longrightarrow>
              genome (entity_pool c j) = genome (entity_pool a j) \<and>
              gene_count (entity_pool c j) = gene_count (entity_pool a j)"
      by (simp add: gc_inv_def)
  qed
qed

lemma gc_inv_view_left: "gc_view a' = gc_view a \<Longrightarrow> gc_inv fp a b \<Longrightarrow> gc_inv fp a' b"
  by (rule gc_inv_trans [OF gc_inv_view]) simp_all

lemma gc_inv_view_right: "gc_inv fp a b \<Longrightarrow> gc_view b' = gc_view b \<Longrightarrow> gc_inv fp a b'"
  by (erule gc_inv_trans) (rule gc_inv_view)

definition gc_keeps_inv :: "fpu \<Rightarrow> (kstate \<Rightarrow> kstate option) \<Rightarrow> bool" where
  "gc_keeps_inv fp gc = (\<forall>s s'. gc s = Some s' \<longrightarrow> gc_inv fp s s')"

lemma inv_kfree:
  assumes ok: "gc_keeps_inv fp gc"
  shows "kfree_with gc fp p s = Some s' \<Longrightarrow> gc_inv fp s s'"
proof -
  assume a: "kfree_with gc fp p s = Some s'"
  show ?thesis
  proof (cases "p = NULL")
    case True
    with a show ?thesis by (simp add: kfree_with_def)
  next
    case False
    let ?s1 = "s\<lparr>allocation_list := mark_garbage p (allocation_list s)\<rparr>"
    show ?thesis
    proof (cases "free_space_low fp ?s1")
      case True
      with a False have "gc ?s1 = Some s'" by (simp add: kfree_with_def Let_def)
      with ok have "gc_inv fp ?s1 s'" by (simp add: gc_keeps_inv_def)
      then show ?thesis by (rule gc_inv_view_left [rotated]) simp
    next
      case F: False
      with a False have "s' = ?s1" by (simp add: kfree_with_def Let_def)
      then show ?thesis by (simp add: gc_inv_view)
    qed
  qed
qed

lemma inv_set_hv:
  "gc_inv fp s (set_hv loc ((get_hv loc s)\<lparr>data := NULL, valid := b\<rparr>) s)"
  by (cases loc) (auto simp: gc_inv_def)

lemma inv_destroy:
  assumes ok: "gc_keeps_inv fp gc"
  shows "destroy_hyper_vector_with gc fp loc s = Some s' \<Longrightarrow> gc_inv fp s s'"
proof -
  assume a: "destroy_hyper_vector_with gc fp loc s = Some s'"
  show ?thesis
  proof (cases "data (get_hv loc s) = NULL")
    case True
    with a show ?thesis by (simp add: destroy_hyper_vector_with_def)
  next
    case False
    with a obtain s1 where k: "kfree_with gc fp (data (get_hv loc s)) s = Some s1"
      and s': "s' = set_hv loc ((get_hv loc s1)\<lparr>data := NULL, valid := 0\<rparr>) s1"
      by (auto simp: destroy_hyper_vector_with_def split: option.splits)
    from inv_kfree [OF ok k] inv_set_hv [of fp s1 loc 0] show ?thesis
      unfolding s' by (rule gc_inv_trans)
  qed
qed

lemma inv_destroy_local:
  assumes ok: "gc_keeps_inv fp gc"
  shows "destroy_local_with gc fp v s = Some s' \<Longrightarrow> gc_inv fp s s'"
  by (auto simp: destroy_local_with_def split: if_splits dest!: inv_kfree [OF ok])

lemma inv_broadcast:
  assumes ok: "gc_keeps_inv fp gc"
  shows "broadcast_thought_with gc fp th s = Some s' \<Longrightarrow> gc_inv fp s s'"
proof -
  assume a: "broadcast_thought_with gc fp th s = Some s'"
  show ?thesis
  proof (cases "valid th = 0")
    case True
    with a show ?thesis by (simp add: broadcast_thought_with_def)
  next
    case False
    from a False obtain s2 c s3 where
      pre: "(if thought_count s \<ge> word_of_nat MAX_THOUGHTS
               then (case destroy_hyper_vector_with gc fp (Thought 0) s of
                       None \<Rightarrow> None
                     | Some s1 \<Rightarrow>
                         Some (s1\<lparr>thought_space := shift_thoughts (thought_space s1),
                                  thought_count := word_of_nat (MAX_THOUGHTS - 1)\<rparr>))
               else Some s) = Some s2" and
      cp: "copy_hyper_vector th s2 = (c, s3)" and
      v: "gc_view s' = gc_view s3"
      by (auto simp: broadcast_thought_with_def Let_def split: option.splits prod.splits)
    have 1: "gc_inv fp s s2"
    proof (cases "thought_count s \<ge> word_of_nat MAX_THOUGHTS")
      case True
      with pre obtain s1 where d: "destroy_hyper_vector_with gc fp (Thought 0) s = Some s1"
        and e: "s2 = s1\<lparr>thought_space := shift_thoughts (thought_space s1),
                                  thought_count := word_of_nat (MAX_THOUGHTS - 1)\<rparr>"
        by (auto split: option.splits)
      from inv_destroy [OF ok d] show ?thesis
        by (rule gc_inv_view_right) (simp add: e)
    next
      case False
      with pre show ?thesis by simp
    qed
    from gc_view_copy [OF cp] v have "gc_view s' = gc_view s2" by simp
    with 1 show ?thesis by (rule gc_inv_view_right)
  qed
qed


lemma inv_destroy_genome:
  assumes ok: "gc_keeps_inv fp gc"
  shows "destroy_genome_with gc fp n cur s = Some s' \<Longrightarrow> gc_inv fp s s'"
proof (induction n arbitrary: cur s)
  case 0
  then show ?case by (simp split: if_splits)
next
  case (Suc n)
  show ?case
  proof (cases "cur = NULL")
    case True
    with Suc.prems show ?thesis by simp
  next
    case False
    with Suc.prems obtain s1 s2 where
      a: "destroy_hyper_vector_with gc fp (GenePattern cur) s = Some s1" and
      b: "kfree_with gc fp cur s1 = Some s2" and
      c: "destroy_genome_with gc fp n (next_gene (genes s cur)) s2 = Some s'"
      by (auto simp: Let_def split: option.splits)
    from inv_destroy [OF ok a] inv_kfree [OF ok b] have "gc_inv fp s s2" by (rule gc_inv_trans)
    from this Suc.IH [OF c] show ?thesis by (rule gc_inv_trans)
  qed
qed

lemma get_set_hv [simp]: "get_hv loc (set_hv loc v s) = v"
  by (cases loc) simp_all

lemma destroy_sets_null:
  "destroy_hyper_vector_with gc fp loc s = Some s' \<Longrightarrow> data (get_hv loc s') = NULL"
  by (auto simp: destroy_hyper_vector_with_def split: if_splits option.splits)

lemma inv_update_nonvolunteer:
  assumes g: "gc_inv fp s t" and act: "is_active (entity_pool s i) \<noteq> 0"
    and nv: "\<not> volunteers fp s (entity_pool s i)"
    and f: "\<And>e. entity_id (f e) = entity_id e \<and> confidence (f e) = confidence e \<and>
        age (f e) = age e \<and> fitness_score (f e) = fitness_score e \<and>
        state (f e) = state e \<and> task_vector (f e) = task_vector e \<and>
        is_active (f e) = is_active e"
  shows "gc_inv fp s (update_entity i f t)"
  using g act nv f unfolding gc_inv_def update_entity_def
  by (intro conjI allI) (simp_all, metis)

lemma inv_update_deactivate:
  assumes g: "gc_inv fp s t" and act: "is_active (entity_pool s i) \<noteq> 0"
    and v: "volunteers fp s (entity_pool s i)"
    and n: "data (state (entity_pool t i)) = NULL" "data (task_vector (entity_pool t i)) = NULL"
  shows "gc_inv fp s (update_entity i (\<lambda>e. e\<lparr>genome := NULL, gene_count := 0, is_active := 0\<rparr>) t)"
  using g act v n unfolding gc_inv_def update_entity_def
  by (intro conjI allI) simp_all

lemma inv_gc_entity:
  assumes ok: "gc_keeps_inv fp gc"
    and r: "gc_entity_with gc fp n i s = Some s'"
  shows "gc_inv fp s s'"
    and "is_active (entity_pool s i) \<noteq> 0 \<Longrightarrow> volunteers fp s (entity_pool s i) \<Longrightarrow>
         is_active (entity_pool s' i) = 0 \<and> gene_count (entity_pool s' i) = 0 \<and>
         genome (entity_pool s' i) = NULL \<and> data (state (entity_pool s' i)) = NULL \<and>
         data (task_vector (entity_pool s' i)) = NULL"
proof -
  have both: "gc_inv fp s s' \<and>
     (is_active (entity_pool s i) \<noteq> 0 \<and> volunteers fp s (entity_pool s i) \<longrightarrow>
         is_active (entity_pool s' i) = 0 \<and> gene_count (entity_pool s' i) = 0 \<and>
         genome (entity_pool s' i) = NULL \<and> data (state (entity_pool s' i)) = NULL \<and>
         data (task_vector (entity_pool s' i)) = NULL)"
  proof (cases "is_active (entity_pool s i) = 0")
    case True
    with r show ?thesis by (simp add: gc_entity_with_def)
  next
    case act: False
    show ?thesis
    proof (cases "volunteers fp s (entity_pool s i)")
      case True
      with r act obtain s1 s2 s3 where
        a: "destroy_genome_with gc fp n (genome (entity_pool s i)) s = Some s1" and
        b: "destroy_hyper_vector_with gc fp (EntityState i) s1 = Some s2" and
        c: "destroy_hyper_vector_with gc fp (EntityTask i) s2 = Some s3" and
        d: "s' = update_entity i (\<lambda>e. e\<lparr>genome := NULL, gene_count := 0, is_active := 0\<rparr>) s3"
        by (auto simp: gc_entity_with_def Let_def split: option.splits)
      from inv_destroy_genome [OF ok a] inv_destroy [OF ok b] have "gc_inv fp s s2"
        by (rule gc_inv_trans)
      from this inv_destroy [OF ok c] have i3: "gc_inv fp s s3" by (rule gc_inv_trans)
      from destroy_sets_null [OF b] have "data (state (entity_pool s2 i)) = NULL" by simp
      with inv_destroy [OF ok c] have n1: "data (state (entity_pool s3 i)) = NULL"
        by (simp add: gc_inv_def)
      from destroy_sets_null [OF c] have n2: "data (task_vector (entity_pool s3 i)) = NULL" by simp
      have g: "gc_inv fp s s'"
        unfolding d by (rule inv_update_deactivate [OF i3 act True n1 n2])
      from g n1 n2 show ?thesis by (simp add: d update_entity_def)
    next
      case False
      with r act obtain wg wp where
        fw: "find_weakest n (genes s) (genome (entity_pool s i)) NULL NULL NULL = Some (wg, wp)"
        by (auto simp: gc_entity_with_def Let_def split: option.splits)
      show ?thesis
      proof (cases "wg \<noteq> NULL \<and> gene_count (entity_pool s i) > 1")
        case F2: False
        with r act False fw have "s' = s" by (auto simp: gc_entity_with_def Let_def)
        with False show ?thesis by simp
      next
        case True
        define s1 where "s1 = (if wp \<noteq> NULL
                         then s\<lparr>genes := (genes s)(wp :=
                                  (genes s wp)\<lparr>next_gene := next_gene (genes s wg)\<rparr>)\<rparr>
                         else update_entity i
                                (\<lambda>e. e\<lparr>genome := next_gene (genes s wg)\<rparr>) s)"
        from r act False fw True obtain s2 s3 where
          b: "destroy_hyper_vector_with gc fp (GenePattern wg) s1 = Some s2" and
          c: "kfree_with gc fp wg s2 = Some s3" and
          d: "s' = update_entity i (\<lambda>e. e\<lparr>gene_count := gene_count e - 1\<rparr>) s3"
          by (auto simp: gc_entity_with_def Let_def s1_def split: option.splits)
        have "gc_inv fp s (update_entity i (\<lambda>e. e\<lparr>genome := next_gene (genes s wg)\<rparr>) s)"
          by (rule inv_update_nonvolunteer [OF gc_inv_refl act False]) simp
        then have "gc_inv fp s s1"
          by (simp add: s1_def gc_inv_view)
        from this inv_destroy [OF ok b] have "gc_inv fp s s2" by (rule gc_inv_trans)
        from this inv_kfree [OF ok c] have "gc_inv fp s s3" by (rule gc_inv_trans)
        then have "gc_inv fp s s'"
          unfolding d by (rule inv_update_nonvolunteer [OF _ act False]) simp
        with False show ?thesis by simp
      qed
    qed
  qed
  from both show "gc_inv fp s s'" by simp
  from both show "is_active (entity_pool s i) \<noteq> 0 \<Longrightarrow> volunteers fp s (entity_pool s i) \<Longrightarrow>
         is_active (entity_pool s' i) = 0 \<and> gene_count (entity_pool s' i) = 0 \<and>
         genome (entity_pool s' i) = NULL \<and> data (state (entity_pool s' i)) = NULL \<and>
         data (task_vector (entity_pool s' i)) = NULL" by simp
qed


lemma inv_gc_loop:
  assumes ok: "gc_keeps_inv fp gc"
  shows "gc_loop_with gc fp n i s = Some s' \<Longrightarrow>
         gc_inv fp s s' \<and>
         (\<forall>j. unat i \<le> j \<and> j < unat (active_entity_count s) \<and>
              is_active (entity_pool s j) \<noteq> 0 \<and> volunteers fp s (entity_pool s j) \<longrightarrow>
              is_active (entity_pool s' j) = 0 \<and> gene_count (entity_pool s' j) = 0 \<and>
              genome (entity_pool s' j) = NULL \<and> data (state (entity_pool s' j)) = NULL \<and>
              data (task_vector (entity_pool s' j)) = NULL)"
proof (induction n arbitrary: i s)
  case 0
  then show ?case by (auto simp: word_less_nat_alt split: if_splits)
next
  case (Suc n)
  show ?case
  proof (cases "i < active_entity_count s")
    case False
    with Suc.prems show ?thesis by (auto simp: word_less_nat_alt)
  next
    case True
    with Suc.prems obtain s1 where
      a: "gc_entity_with gc fp n (unat i) s = Some s1" and
      b: "gc_loop_with gc fp n (i + 1) s1 = Some s'"
      by (auto split: option.splits)
    note g1 = inv_gc_entity(1) [OF ok a]
    note l1 = inv_gc_entity(2) [OF ok a]
    from Suc.IH [OF b] have g2: "gc_inv fp s1 s'"
      and l2: "\<And>j. unat (i + 1) \<le> j \<Longrightarrow> j < unat (active_entity_count s1) \<Longrightarrow>
              is_active (entity_pool s1 j) \<noteq> 0 \<Longrightarrow> volunteers fp s1 (entity_pool s1 j) \<Longrightarrow>
              is_active (entity_pool s' j) = 0 \<and> gene_count (entity_pool s' j) = 0 \<and>
              genome (entity_pool s' j) = NULL \<and> data (state (entity_pool s' j)) = NULL \<and>
              data (task_vector (entity_pool s' j)) = NULL"
      by blast+
    from g1 g2 have g: "gc_inv fp s s'" by (rule gc_inv_trans)
    from True have lt: "unat i < unat (active_entity_count s)" by (simp add: word_less_nat_alt)
    have "unat (active_entity_count s) < 2 ^ 32" using unsigned_less [of "active_entity_count s"] by simp
    with lt have u: "unat (i + 1) = unat i + 1"
      by (simp add: unat_add_lem [THEN iffD1])
    from g1 have c1: "active_entity_count s1 = active_entity_count s" by (simp add: gc_inv_def)
    have keep: "is_active (entity_pool s' j) = 0 \<and> gene_count (entity_pool s' j) = 0 \<and>
              genome (entity_pool s' j) = NULL \<and> data (state (entity_pool s' j)) = NULL \<and>
              data (task_vector (entity_pool s' j)) = NULL"
      if "is_active (entity_pool s1 j) = 0 \<and> gene_count (entity_pool s1 j) = 0 \<and>
              genome (entity_pool s1 j) = NULL \<and> data (state (entity_pool s1 j)) = NULL \<and>
              data (task_vector (entity_pool s1 j)) = NULL" for j
      using g2 that by (auto simp: gc_inv_def)
    have "is_active (entity_pool s' j) = 0 \<and> gene_count (entity_pool s' j) = 0 \<and>
              genome (entity_pool s' j) = NULL \<and> data (state (entity_pool s' j)) = NULL \<and>
              data (task_vector (entity_pool s' j)) = NULL"
      if h: "unat i \<le> j" "j < unat (active_entity_count s)"
         "is_active (entity_pool s j) \<noteq> 0" "volunteers fp s (entity_pool s j)" for j
    proof (cases "j = unat i")
      case True
      from l1 h(3,4) True show ?thesis by (intro keep) simp
    next
      case False
      with h(1) u have ge: "unat (i + 1) \<le> j" by simp
      from g1 have a1: "is_active (entity_pool s1 j) = is_active (entity_pool s j) \<or>
            volunteers fp s (entity_pool s j) \<and> is_active (entity_pool s1 j) = 0 \<and>
            gene_count (entity_pool s1 j) = 0 \<and> genome (entity_pool s1 j) = NULL \<and>
            data (state (entity_pool s1 j)) = NULL \<and>
            data (task_vector (entity_pool s1 j)) = NULL"
        by (simp add: gc_inv_def)
      show ?thesis
      proof (cases "is_active (entity_pool s1 j) = 0")
        case F: False
        from gc_inv_volunteers [OF g1, of j] h(4) have "volunteers fp s1 (entity_pool s1 j)" by simp
        from l2 [OF ge _ F this] h(2) c1 show ?thesis by simp
      next
        case T: True
        with a1 h(3) show ?thesis by (intro keep) auto
      qed
    qed
    with g show ?thesis by blast
  qed
qed


lemma inv_gc_body:
  assumes ok: "gc_keeps_inv fp gc" and r: "gc_body gc fp n s = Some s'"
  shows "gc_inv fp s s' \<and>
         (\<forall>j. j < unat (active_entity_count s) \<and>
              is_active (entity_pool s j) \<noteq> 0 \<and> volunteers fp s (entity_pool s j) \<longrightarrow>
              is_active (entity_pool s' j) = 0 \<and> gene_count (entity_pool s' j) = 0 \<and>
              genome (entity_pool s' j) = NULL \<and> data (state (entity_pool s' j)) = NULL \<and>
              data (task_vector (entity_pool s' j)) = NULL)"
proof -
  obtain pt s1 where c: "create_hyper_vector fp (bytes_of_string ''SYSTEM_MEMORY_PRESSURE'') s = (pt, s1)"
    by (cases "create_hyper_vector fp (bytes_of_string ''SYSTEM_MEMORY_PRESSURE'') s")
  from r c obtain s3 where
    pre: "(if valid pt \<noteq> 0
                 then (case broadcast_thought_with gc fp pt s1 of
                         None \<Rightarrow> None
                       | Some s2 \<Rightarrow> destroy_local_with gc fp pt s2)
                 else Some s1) = Some s3" and
    l: "gc_loop_with gc fp n 0 s3 = Some s'"
    by (auto simp: gc_body_def split: option.splits)
  have g1: "gc_inv fp s s1" by (rule gc_inv_view [OF gc_view_create [OF c]])
  have g13: "gc_inv fp s1 s3"
  proof (cases "valid pt \<noteq> 0")
    case True
    with pre obtain s2 where b: "broadcast_thought_with gc fp pt s1 = Some s2"
      and d: "destroy_local_with gc fp pt s2 = Some s3"
      by (auto split: option.splits)
    from inv_broadcast [OF ok b] inv_destroy_local [OF ok d] show ?thesis by (rule gc_inv_trans)
  next
    case False
    with pre show ?thesis by simp
  qed
  from g1 g13 have g3: "gc_inv fp s s3" by (rule gc_inv_trans)
  from inv_gc_loop [OF ok l] have g: "gc_inv fp s3 s'"
    and lp: "\<And>j. j < unat (active_entity_count s3) \<Longrightarrow>
              is_active (entity_pool s3 j) \<noteq> 0 \<Longrightarrow> volunteers fp s3 (entity_pool s3 j) \<Longrightarrow>
              is_active (entity_pool s' j) = 0 \<and> gene_count (entity_pool s' j) = 0 \<and>
              genome (entity_pool s' j) = NULL \<and> data (state (entity_pool s' j)) = NULL \<and>
              data (task_vector (entity_pool s' j)) = NULL"
    by simp_all
  from g3 g have gg: "gc_inv fp s s'" by (rule gc_inv_trans)
  from g3 have c3: "active_entity_count s3 = active_entity_count s" by (simp add: gc_inv_def)
  have "is_active (entity_pool s' j) = 0 \<and> gene_count (entity_pool s' j) = 0 \<and>
              genome (entity_pool s' j) = NULL \<and> data (state (entity_pool s' j)) = NULL \<and>
              data (task_vector (entity_pool s' j)) = NULL"
    if h: "j < unat (active_entity_count s)" "is_active (entity_pool s j) \<noteq> 0"
       "volunteers fp s (entity_pool s j)" for j
  proof (cases "is_active (entity_pool s3 j) = 0")
    case False
    from gc_inv_volunteers [OF g3, of j] h(3) have "volunteers fp s3 (entity_pool s3 j)" by simp
    from lp [OF _ False this] h(1) c3 show ?thesis by simp
  next
    case True
    from g3 have "is_active (entity_pool s3 j) = is_active (entity_pool s j) \<or>
            volunteers fp s (entity_pool s j) \<and> is_active (entity_pool s3 j) = 0 \<and>
            gene_count (entity_pool s3 j) = 0 \<and> genome (entity_pool s3 j) = NULL \<and>
            data (state (entity_pool s3 j)) = NULL \<and>
            data (task_vector (entity_pool s3 j)) = NULL"
      by (simp add: gc_inv_def)
    with True h(2) have "is_active (entity_pool s3 j) = 0 \<and>
            gene_count (entity_pool s3 j) = 0 \<and> genome (entity_pool s3 j) = NULL \<and>
            data (state (entity_pool s3 j)) = NULL \<and>
            data (task_vector (entity_pool s3 j)) = NULL" by auto
    with g show ?thesis by (auto simp: gc_inv_def)
  qed
  with gg show ?thesis by blast
qed

lemma collector_keeps_inv: "gc_keeps_inv fp (perform_emergent_garbage_collection n fp)"
proof (induction n)
  case 0
  show ?case by (simp add: gc_keeps_inv_def)
next
  case (Suc n)
  show ?case
    unfolding gc_keeps_inv_def
  proof (intro allI impI)
    fix s s'
    assume "perform_emergent_garbage_collection (Suc n) fp s = Some s'"
    then have "gc_body (perform_emergent_garbage_collection n fp) fp n s = Some s'" by simp
    from inv_gc_body [OF Suc this] show "gc_inv fp s s'" by simp
  qed
qed

text \<open>
  Whenever a pass of the collector returns, with any bound and floating-point unit: an
  entity that was active before the pass is inactive after it exactly when its draw
  \<open>(global_timestamp * id) % 1000\<close> is below \<open>(uint32_t)(sacrifice_probability * 1000)\<close>,
  the product truncated and the probability not clamped; a deactivated entity has
  \<open>gene_count = 0\<close>, no genome and no buffers for its state and task vectors.
\<close>

lemma sacrifice_decides_deactivation:
  assumes r: "perform_emergent_garbage_collection n fp s = Some s'"
    and j: "j < unat (active_entity_count s)"
    and act: "is_active (entity_pool s j) \<noteq> 0"
  shows "((is_active (entity_pool s' j) = 0) =
           ((global_timestamp s * entity_id (entity_pool s j)) mod 1000
              < f2u fp (fmul fp (sacrifice_probability fp (confidence (entity_pool s j))
                                   (age (entity_pool s j)) (fitness_score (entity_pool s j)))
                          f_1000_0))) \<and>
         (is_active (entity_pool s' j) = 0 \<longrightarrow>
           gene_count (entity_pool s' j) = 0 \<and> genome (entity_pool s' j) = NULL \<and>
           data (state (entity_pool s' j)) = NULL \<and> data (task_vector (entity_pool s' j)) = NULL) \<and>
         (is_active (entity_pool s' j) \<noteq> 0 \<longrightarrow>
           is_active (entity_pool s' j) = is_active (entity_pool s j))"
proof -
  from r obtain m where n: "n = Suc m" by (cases n) simp_all
  with r have b: "gc_body (perform_emergent_garbage_collection m fp) fp m s = Some s'" by simp
  note i = inv_gc_body [OF collector_keeps_inv b]
  from i have alt: "is_active (entity_pool s' j) = is_active (entity_pool s j) \<or>
            volunteers fp s (entity_pool s j) \<and> is_active (entity_pool s' j) = 0 \<and>
            gene_count (entity_pool s' j) = 0 \<and> genome (entity_pool s' j) = NULL \<and>
            data (state (entity_pool s' j)) = NULL \<and>
            data (task_vector (entity_pool s' j)) = NULL"
    by (simp add: gc_inv_def)
  from i j act have fw: "volunteers fp s (entity_pool s j) \<Longrightarrow> is_active (entity_pool s' j) = 0"
    by blast
  have v: "volunteers fp s (entity_pool s j) =
           ((global_timestamp s * entity_id (entity_pool s j)) mod 1000
              < f2u fp (fmul fp (sacrifice_probability fp (confidence (entity_pool s j))
                                   (age (entity_pool s j)) (fitness_score (entity_pool s j)))
                          f_1000_0))"
    by (simp add: volunteers_def random_roll_def sacrifice_threshold_def)
  from alt act fw show ?thesis
    unfolding v [symmetric] by auto
qed

lemma threshold_17: "sacrifice_threshold ieee f_0_5 17 0 = 150"
  by (simp add: sacrifice_threshold_def sacrifice_probability_def ieee_eval f_consts)

lemma product_17: "fmul ieee (sacrifice_probability ieee f_0_5 17 0) f_1000_0 = 0x43168290"
  by (simp add: sacrifice_probability_def ieee_eval f_consts)

lemma collector_keeps_150:
  "perform_emergent_garbage_collection 3 ieee (sacrifice_state 150) = Some (sacrifice_state 150)"
  apply (simp add: numeral_nat gc_body_full)
  apply (simp add: sacrifice_state_def boot_state_def gc_body_full KERNEL_HEAP_SIZE_def)
  apply (simp add: gc_entity_with_def zero_Entity_def volunteers_def random_roll_def
       threshold_17 NULL_def Let_def)
  done

text \<open>
  The threshold is the truncated product: with the draw 150 and
  \<open>sacrifice_probability * 1000 = 150.51\<close> (\<open>0x43168290\<close>) the draw is below the product,
  but not below its integer part, and the entity is not deactivated.
\<close>

lemma sacrifice_threshold_is_truncated:
  "is_active (entity_pool (sacrifice_state 150) 1) = 1 \<and>
   (global_timestamp (sacrifice_state 150) * entity_id (entity_pool (sacrifice_state 150) 1))
      mod 1000 = 150 \<and>
   fmul ieee (sacrifice_probability ieee (confidence (entity_pool (sacrifice_state 150) 1))
                (age (entity_pool (sacrifice_state 150) 1))
                (fitness_score (entity_pool (sacrifice_state 150) 1))) f_1000_0 = 0x43168290 \<and>
   flt (u2f ieee 150) 0x43168290 \<and>
   perform_emergent_garbage_collection 3 ieee (sacrifice_state 150) = Some (sacrifice_state 150)"
proof -
  have a: "is_active (entity_pool (sacrifice_state 150) 1) = 1 \<and>
   (global_timestamp (sacrifice_state 150) * entity_id (entity_pool (sacrifice_state 150) 1))
      mod 1000 = 150"
    by (simp add: sacrifice_state_def zero_Entity_def)
  have b: "fmul ieee (sacrifice_probability ieee (confidence (entity_pool (sacrifice_state 150) 1))
                (age (entity_pool (sacrifice_state 150) 1))
                (fitness_score (entity_pool (sacrifice_state 150) 1))) f_1000_0 = 0x43168290"
    using product_17 by (simp add: sacrifice_state_def zero_Entity_def)
  have c: "flt (u2f ieee 150) 0x43168290"
    by (simp add: flt_def f_key_def ieee_eval)
  from a b c collector_keeps_150 show ?thesis by simp
qed


lemma collector_sacrifices_149:
  "perform_emergent_garbage_collection 3 ieee (sacrifice_state 149) \<noteq> None"
  apply (simp add: numeral_nat gc_body_full)
  apply (simp add: sacrifice_state_def boot_state_def gc_body_full KERNEL_HEAP_SIZE_def)
  apply (simp add: gc_entity_with_def zero_Entity_def volunteers_def random_roll_def
       threshold_17 NULL_def Let_def destroy_hyper_vector_with_def zero_HyperVector_def
       update_entity_def)
  done

lemma sacrifice_decides_deactivation_example:
  "f2u ieee (fmul ieee (sacrifice_probability ieee f_0_5 17 0) f_1000_0) = 150 \<and>
   (\<exists>s'. perform_emergent_garbage_collection 3 ieee (sacrifice_state 149) = Some s' \<and>
         is_active (entity_pool s' 1) = 0 \<and> gene_count (entity_pool s' 1) = 0 \<and>
         genome (entity_pool s' 1) = NULL) \<and>
   perform_emergent_garbage_collection 3 ieee (sacrifice_state 150) = Some (sacrifice_state 150) \<and>
   is_active (entity_pool (sacrifice_state 150) 1) = 1"
proof -
  have t: "f2u ieee (fmul ieee (sacrifice_probability ieee f_0_5 17 0) f_1000_0) = 150"
    using threshold_17 by (simp add: sacrifice_threshold_def)
  from collector_sacrifices_149 obtain s' where
    r: "perform_emergent_garbage_collection 3 ieee (sacrifice_state 149) = Some s'" by blast
  have j: "1 < unat (active_entity_count (sacrifice_state 149))"
    and act: "is_active (entity_pool (sacrifice_state 149) 1) \<noteq> 0"
    by (simp_all add: sacrifice_state_def zero_Entity_def)
  from sacrifice_decides_deactivation [OF r j act] t
  have "is_active (entity_pool s' 1) = 0 \<and> gene_count (entity_pool s' 1) = 0 \<and>
         genome (entity_pool s' 1) = NULL"
    by (simp add: sacrifice_state_def zero_Entity_def)
  with r have a: "\<exists>s'. perform_emergent_garbage_collection 3 ieee (sacrifice_state 149) = Some s' \<and>
         is_active (entity_pool s' 1) = 0 \<and> gene_count (entity_pool s' 1) = 0 \<and>
         genome (entity_pool s' 1) = NULL" by blast
  have b: "is_active (entity_pool (sacrifice_state 150) 1) = 1"
    by (simp add: sacrifice_state_def zero_Entity_def)
  from t a b collector_keeps_150 show ?thesis by blast
qed

lemma owner_state_pass:
  assumes kf: "kfree_with gc ieee 0xA1000 (owner_state g) = None"
  shows "gc_body gc ieee n (owner_state g) = None"
proof -
  have full: "KERNEL_HEAP_SIZE \<le> heap_offset (owner_state g) + 2048"
    by (simp add: owner_state_def sacrifice_state_def KERNEL_HEAP_SIZE_def)
  have c: "active_entity_count (owner_state g) = 2"
    "is_active (entity_pool (owner_state g) 0) = 0"
    "is_active (entity_pool (owner_state g) (Suc 0)) = 1"
    "genome (entity_pool (owner_state g) (Suc 0)) = NULL"
    "data (state (entity_pool (owner_state g) (Suc 0))) = 0xA1000"
    by (simp_all add: owner_state_def sacrifice_state_def zero_Entity_def NULL_def)
  have v: "volunteers ieee (owner_state g) (entity_pool (owner_state g) (Suc 0))"
    by (simp add: volunteers_def random_roll_def threshold_17 owner_state_def sacrifice_state_def
        zero_Entity_def)
  have dg: "destroy_genome_with gc ieee k 0 t = Some t" for k t
    by (cases k) (simp_all add: NULL_def)
  have e1: "gc_entity_with gc ieee k (Suc 0) (owner_state g) = None" for k
    by (simp add: gc_entity_with_def c v dg destroy_hyper_vector_with_def kf NULL_def Let_def)
  have e0: "gc_entity_with gc ieee k 0 (owner_state g) = Some (owner_state g)" for k
    by (simp add: gc_entity_with_def c)
  have l1: "gc_loop_with gc ieee k 1 (owner_state g) = None" for k
    by (cases k) (simp_all add: c e1)
  have l0: "gc_loop_with gc ieee k 0 (owner_state g) = None" for k
    by (cases k) (simp_all add: c e0 l1)
  show ?thesis by (simp add: gc_body_full [OF full] l0)
qed

lemma owner_state_low: "free_space_low ieee (owner_state g)"
  by (simp add: free_space_low_def owner_state_def sacrifice_state_def free_fraction_def
      KERNEL_HEAP_SIZE_def flt_def f_key_def ieee_eval f_consts)

lemma owner_state_mark:
  "(owner_state g)\<lparr>allocation_list := mark_garbage 0xA1000 (allocation_list (owner_state g))\<rparr>
     = owner_state 1"
  by (simp add: owner_state_def state_block_def)

lemma owner_state_kfree:
  "kfree_with gc ieee 0xA1000 (owner_state g) = gc (owner_state 1)"
  using owner_state_low [of 1]
  by (simp add: kfree_with_def NULL_def owner_state_mark Let_def)

lemma marked_owner_never_returns:
  "perform_emergent_garbage_collection n ieee (owner_state 1) = None"
proof (induction n)
  case 0
  show ?case by simp
next
  case (Suc n)
  have "kfree_with (perform_emergent_garbage_collection n ieee) ieee 0xA1000 (owner_state 1) = None"
    by (simp add: owner_state_kfree Suc)
  then show ?case by (simp add: owner_state_pass)
qed

text \<open>
  C4. An active entity whose draw falls below the threshold must be deactivated: genome
  and vectors destroyed, \<open>gene_count = 0\<close>, \<open>is_active = 0\<close>. In \<open>owner_state 0\<close> the draw
  is 149, the threshold 150, and the entity owns the buffer of its state vector. The
  collector runs only when less than a fifth of the arena is free, and then
  \<open>destroy_hyper_vector\<close> calls \<open>kfree\<close>, which starts a nested pass before the buffer
  pointer and the activity flag are cleared; the nested pass finds the same entity
  active with the same draw and sacrifices it again, and so on: with no bound on the
  nesting does the pass return, and the entity is never deactivated.
\<close>

theorem sacrifice_of_owner_never_returns:
  "is_active (entity_pool (owner_state 0) 1) = 1 \<and>
   (global_timestamp (owner_state 0) * entity_id (entity_pool (owner_state 0) 1)) mod 1000 = 149 \<and>
   f2u ieee (fmul ieee (sacrifice_probability ieee (confidence (entity_pool (owner_state 0) 1))
                (age (entity_pool (owner_state 0) 1))
                (fitness_score (entity_pool (owner_state 0) 1))) f_1000_0) = 150 \<and>
   data (state (entity_pool (owner_state 0) 1)) = 0xA1000 \<and>
   perform_emergent_garbage_collection n ieee (owner_state 0) = None"
proof -
  have a: "is_active (entity_pool (owner_state 0) 1) = 1 \<and>
   (global_timestamp (owner_state 0) * entity_id (entity_pool (owner_state 0) 1)) mod 1000 = 149 \<and>
   data (state (entity_pool (owner_state 0) 1)) = 0xA1000"
    by (simp add: owner_state_def sacrifice_state_def zero_Entity_def)
  have b: "f2u ieee (fmul ieee (sacrifice_probability ieee (confidence (entity_pool (owner_state 0) 1))
                (age (entity_pool (owner_state 0) 1))
                (fitness_score (entity_pool (owner_state 0) 1))) f_1000_0) = 150"
    using threshold_17
    by (simp add: sacrifice_threshold_def owner_state_def sacrifice_state_def zero_Entity_def)
  have c: "perform_emergent_garbage_collection n ieee (owner_state 0) = None"
  proof (cases n)
    case 0
    then show ?thesis by simp
  next
    case (Suc m)
    have "kfree_with (perform_emergent_garbage_collection m ieee) ieee 0xA1000 (owner_state 0) = None"
      by (simp add: owner_state_kfree marked_owner_never_returns)
    then show ?thesis by (simp add: Suc owner_state_pass)
  qed
  from a b c show ?thesis by simp
qed

end
